theory Spec2Isabelle
  imports Complex_Main
begin

section \<open>Structural Change on multiple time scales: the program\<close>

text \<open>
  A shallow embedding of \<^verbatim>\<open>StructuralChange.hpp\<close>. Conventions:
  \<^item> a \<^verbatim>\<open>size_t\<close> is a natural number below \<open>2 ^ 64\<close>, its arithmetic written with the
    wrap-around; an \<^verbatim>\<open>int\<close> is an integer of 32 bits: a conversion to it keeps the low
    32 bits, and an overflowing signed operation is an error (the behaviour is undefined);
  \<^item> a \<^verbatim>\<open>std::vector\<close> is a list; reading or writing past its end is an error, and so is
    a \<^verbatim>\<open>resize\<close> above the largest size of a vector; memory is not bounded otherwise;
  \<^item> a \<^verbatim>\<open>for\<close> loop over \<open>0 \<le> i < n\<close> is \<open>for_loop [0..<n]\<close> over the loop's variables,
    and a loop that only fills a vector is \<open>emap\<close> over the indices;
  \<^item> floating point is embedded at two levels. The calculation (\<^verbatim>\<open>calculate\<close> and the loops
    it runs) is embedded in exact arithmetic: there a \<^verbatim>\<open>float\<close> is a real number, and an
    operation whose result would be an infinity or NaN (a division by zero, the square
    root of a negative number) is the error \<open>NotFinite\<close>. That level carries the
    properties of the control flow, of the shape of the output and of the relations
    between the values the program computes. The four policies and the accumulation loop
    are embedded in IEEE 754 arithmetic (the names ending in \<open>_binary32\<close>): every operation
    rounds to the nearest number of its format, overflows to an infinity and yields NaN
    as the hardware does. That level carries the properties that rounding and overflow
    decide.
\<close>

subsection \<open>Values, errors and loops\<close>

type_synonym float = real

datatype error = OutOfRange | ShiftTooLarge | SignedOverflow | NotFinite | LengthError

definition ebind :: "error + 'a \<Rightarrow> ('a \<Rightarrow> error + 'b) \<Rightarrow> error + 'b" where
  "ebind m f = (case m of Inl e \<Rightarrow> Inl e | Inr x \<Rightarrow> f x)"

text \<open>\<^verbatim>\<open>v[i]\<close>, read and written.\<close>

definition vec_get :: "'a list \<Rightarrow> nat \<Rightarrow> error + 'a" where
  "vec_get v i = (if i < length v then Inr (v ! i) else Inl OutOfRange)"

definition vec_set :: "'a list \<Rightarrow> nat \<Rightarrow> 'a \<Rightarrow> error + 'a list" where
  "vec_set v i x = (if i < length v then Inr (v[i := x]) else Inl OutOfRange)"

fun for_loop :: "nat list \<Rightarrow> (nat \<Rightarrow> 's \<Rightarrow> error + 's) \<Rightarrow> 's \<Rightarrow> error + 's" where
  "for_loop [] body s = Inr s"
| "for_loop (i # is) body s =
     (case body i s of Inl e \<Rightarrow> Inl e | Inr s' \<Rightarrow> for_loop is body s')"

fun emap :: "('a \<Rightarrow> error + 'b) \<Rightarrow> 'a list \<Rightarrow> error + 'b list" where
  "emap f [] = Inr []"
| "emap f (x # xs) =
     (case f x of Inl e \<Rightarrow> Inl e
      | Inr y \<Rightarrow> (case emap f xs of Inl e \<Rightarrow> Inl e | Inr ys \<Rightarrow> Inr (y # ys)))"

subsection \<open>Integers of the machine\<close>

definition size_t_add :: "nat \<Rightarrow> nat \<Rightarrow> nat" where
  "size_t_add a b = (a + b) mod 2 ^ 64"

definition size_t_sub :: "nat \<Rightarrow> nat \<Rightarrow> nat" where
  "size_t_sub a b = nat ((int a - int b) mod 2 ^ 64)"

text \<open>The conversion of a \<^verbatim>\<open>size_t\<close> to \<^verbatim>\<open>int\<close>, and back.\<close>

definition int_of_size_t :: "nat \<Rightarrow> int" where
  "int_of_size_t n = (let m = int n mod 2 ^ 32 in if m < 2 ^ 31 then m else m - 2 ^ 32)"

definition size_t_of_int :: "int \<Rightarrow> nat" where
  "size_t_of_int z = nat (z mod 2 ^ 64)"

text \<open>The result of a signed operation, when it fits.\<close>

definition int_checked :: "int \<Rightarrow> error + int" where
  "int_checked z = (if - (2 ^ 31) \<le> z \<and> z < 2 ^ 31 then Inr z else Inl SignedOverflow)"

text \<open>\<^verbatim>\<open>1U << n\<close>, an \<^verbatim>\<open>unsigned int\<close> of 32 bits.\<close>

definition shl_1U :: "nat \<Rightarrow> error + nat" where
  "shl_1U n = (if n < 32 then Inr (2 ^ n) else Inl ShiftTooLarge)"

subsection \<open>Exact arithmetic: the operations with no real result\<close>

definition fdiv :: "float \<Rightarrow> float \<Rightarrow> error + float" where
  "fdiv x y = (if y = 0 then Inl NotFinite else Inr (x / y))"

definition fsqrt :: "float \<Rightarrow> error + float" where
  "fsqrt x = (if x < 0 then Inl NotFinite else Inr (sqrt x))"

subsection \<open>Binary floating point\<close>

text \<open>
  The values of a binary floating-point format: the finite numbers, the two infinities
  and NaN. \<open>Finite x\<close> is the number \<open>x\<close>: the inputs are taken among the numbers of the
  format, and every operation below returns one, since it rounds. The sign of a zero is
  not represented: it has no effect on a sum, a product, a square root or a comparison of
  the program, and a division by zero is the division by \<open>+0\<close>, the only zero that a
  denominator of the program can be.
\<close>

datatype ieee = Finite real | PInf | NInf | NaN

instantiation ieee :: zero
begin

definition zero_ieee :: ieee where
  "zero_ieee = Finite 0"

instance ..

end

fun is_finite :: "ieee \<Rightarrow> bool" where
  "is_finite (Finite x) = True"
| "is_finite _ = False"

fun value_of :: "ieee \<Rightarrow> real" where
  "value_of (Finite x) = x"
| "value_of _ = 0"

fun is_negative :: "ieee \<Rightarrow> bool" where
  "is_negative (Finite x) = (x < 0)"
| "is_negative NInf = True"
| "is_negative _ = False"

text \<open>
  Rounding to the nearest number of the format with \<open>p\<close> bits of precision and the
  exponents \<open>emin\<close> to \<open>emax\<close>, ties to the number whose last bit is even (the default
  rounding mode). The numbers of the format near \<open>x\<close> are the multiples of \<open>quantum p emin x\<close>,
  which stops shrinking below \<open>2 ^ emin\<close> (gradual underflow); a result of magnitude
  \<open>2 ^ (emax + 1)\<close> or more is an infinity. A \<^verbatim>\<open>float\<close> is a binary32 number, a \<^verbatim>\<open>double\<close> a
  binary64 number.
\<close>

definition round_even :: "real \<Rightarrow> int" where
  "round_even q =
     (let n = \<lfloor>q\<rfloor>; r = q - of_int n
      in if r < 1 / 2 then n else if 1 / 2 < r then n + 1 else if even n then n else n + 1)"

definition quantum :: "nat \<Rightarrow> int \<Rightarrow> real \<Rightarrow> real" where
  "quantum p emin x = 2 powi (max emin \<lfloor>log 2 \<bar>x\<bar>\<rfloor> - int p + 1)"

definition round_to :: "nat \<Rightarrow> int \<Rightarrow> int \<Rightarrow> real \<Rightarrow> ieee" where
  "round_to p emin emax x =
     (if x = 0 then Finite 0
      else let q = quantum p emin x; y = of_int (round_even (x / q)) * q
           in if 2 powi (emax + 1) \<le> \<bar>y\<bar> then (if 0 < x then PInf else NInf) else Finite y)"

definition round32 :: "real \<Rightarrow> ieee" where
  "round32 = round_to 24 (- 126) 127"

definition round64 :: "real \<Rightarrow> ieee" where
  "round64 = round_to 53 (- 1022) 1023"

text \<open>
  The operations of IEEE 754, given the rounding of the format: the exact result, rounded,
  on finite operands, and the special cases of the infinities and NaN. A comparison with
  NaN is false, but \<^verbatim>\<open>!=\<close> is true.
\<close>

fun ieee_neg :: "ieee \<Rightarrow> ieee" where
  "ieee_neg (Finite x) = Finite (- x)"
| "ieee_neg PInf = NInf"
| "ieee_neg NInf = PInf"
| "ieee_neg NaN = NaN"

fun ieee_add :: "(real \<Rightarrow> ieee) \<Rightarrow> ieee \<Rightarrow> ieee \<Rightarrow> ieee" where
  "ieee_add rnd (Finite x) (Finite y) = rnd (x + y)"
| "ieee_add rnd NaN _ = NaN"
| "ieee_add rnd _ NaN = NaN"
| "ieee_add rnd PInf NInf = NaN"
| "ieee_add rnd NInf PInf = NaN"
| "ieee_add rnd PInf _ = PInf"
| "ieee_add rnd _ PInf = PInf"
| "ieee_add rnd NInf _ = NInf"
| "ieee_add rnd _ NInf = NInf"

definition ieee_sub :: "(real \<Rightarrow> ieee) \<Rightarrow> ieee \<Rightarrow> ieee \<Rightarrow> ieee" where
  "ieee_sub rnd a b = ieee_add rnd a (ieee_neg b)"

fun ieee_mul :: "(real \<Rightarrow> ieee) \<Rightarrow> ieee \<Rightarrow> ieee \<Rightarrow> ieee" where
  "ieee_mul rnd (Finite x) (Finite y) = rnd (x * y)"
| "ieee_mul rnd NaN _ = NaN"
| "ieee_mul rnd _ NaN = NaN"
| "ieee_mul rnd a b =
     (if a = Finite 0 \<or> b = Finite 0 then NaN
      else if is_negative a = is_negative b then PInf else NInf)"

fun ieee_div :: "(real \<Rightarrow> ieee) \<Rightarrow> ieee \<Rightarrow> ieee \<Rightarrow> ieee" where
  "ieee_div rnd (Finite x) (Finite y) =
     (if y = 0 then (if x = 0 then NaN else if 0 < x then PInf else NInf) else rnd (x / y))"
| "ieee_div rnd NaN _ = NaN"
| "ieee_div rnd _ NaN = NaN"
| "ieee_div rnd (Finite x) _ = Finite 0"
| "ieee_div rnd a (Finite y) = (if is_negative a = (y < 0) then PInf else NInf)"
| "ieee_div rnd _ _ = NaN"

fun ieee_sqrt :: "(real \<Rightarrow> ieee) \<Rightarrow> ieee \<Rightarrow> ieee" where
  "ieee_sqrt rnd (Finite x) = (if x < 0 then NaN else rnd (sqrt x))"
| "ieee_sqrt rnd PInf = PInf"
| "ieee_sqrt rnd _ = NaN"



definition ieee_differs :: "ieee \<Rightarrow> ieee \<Rightarrow> bool" where
  "ieee_differs a b = (a = NaN \<or> b = NaN \<or> a \<noteq> b)"

text \<open>
  The operations as the program's expressions use them. An operation on two floats rounds
  to binary32 (\<^verbatim>\<open>FLT_EVAL_METHOD\<close> 0, no contraction into fused operations); an operation
  with a \<^verbatim>\<open>double\<close> operand, such as the literal \<^verbatim>\<open>0.5\<close>, is carried out in binary64, a float
  operand being converted exactly; \<open>to_float\<close> is the conversion of a double to a float, of
  an assignment or a \<^verbatim>\<open>return\<close>. The unqualified \<^verbatim>\<open>sqrt\<close> and \<^verbatim>\<open>log\<close> are the C library's
  functions on doubles, \<^verbatim>\<open>std::sqrt\<close> on a float is the float's; \<^verbatim>\<open>log\<close> is taken to return the
  double nearest to the logarithm.
\<close>

type_synonym binary32 = ieee

fun to_float :: "ieee \<Rightarrow> ieee" where
  "to_float (Finite x) = round32 x"
| "to_float a = a"

abbreviation add32 :: "ieee \<Rightarrow> ieee \<Rightarrow> ieee" where "add32 \<equiv> ieee_add round32"

abbreviation sub32 :: "ieee \<Rightarrow> ieee \<Rightarrow> ieee" where "sub32 \<equiv> ieee_sub round32"

abbreviation mul32 :: "ieee \<Rightarrow> ieee \<Rightarrow> ieee" where "mul32 \<equiv> ieee_mul round32"

abbreviation div32 :: "ieee \<Rightarrow> ieee \<Rightarrow> ieee" where "div32 \<equiv> ieee_div round32"

abbreviation sqrt32 :: "ieee \<Rightarrow> ieee" where "sqrt32 \<equiv> ieee_sqrt round32"

abbreviation add64 :: "ieee \<Rightarrow> ieee \<Rightarrow> ieee" where "add64 \<equiv> ieee_add round64"

abbreviation mul64 :: "ieee \<Rightarrow> ieee \<Rightarrow> ieee" where "mul64 \<equiv> ieee_mul round64"

abbreviation div64 :: "ieee \<Rightarrow> ieee \<Rightarrow> ieee" where "div64 \<equiv> ieee_div round64"

abbreviation sqrt64 :: "ieee \<Rightarrow> ieee" where "sqrt64 \<equiv> ieee_sqrt round64"


subsection \<open>The divergence policies\<close>

type_synonym DivergencePolicy = "float list \<Rightarrow> float list \<Rightarrow> error + float"

text \<open>
  \<^verbatim>\<open>EuclideanDivergencePolicy::operator()\<close> in exact arithmetic, the policy of the scenarios
  of the calculation.
\<close>

definition EuclideanDivergencePolicy :: DivergencePolicy where
  "EuclideanDivergencePolicy a b =
    (let num_element = length a
     in ebind (for_loop [0..<num_element]
          (\<lambda>i outsum.
             ebind (vec_get a i) (\<lambda>ai.
             ebind (vec_get b i) (\<lambda>bi.
               Inr (outsum + (ai - bi) * (ai - bi)))))
          0)
        fsqrt)"

text \<open>
  The policies in binary32 arithmetic. \<^verbatim>\<open>CorrelationDivergencePolicy::operator()\<close>: the
  first loop carries \<open>(a_mean, b_mean, a_valid, b_valid)\<close>, the second
  \<open>(above, below_a, below_b)\<close>; the division of the means converts \<^verbatim>\<open>num_element\<close> to a
  float; the returned expression is evaluated in doubles, but for the product of the two
  square roots, and converted to a float.
\<close>

definition CorrelationDivergencePolicy_binary32 :: "binary32 list \<Rightarrow> binary32 list \<Rightarrow> error + binary32" where
  "CorrelationDivergencePolicy_binary32 a b =
    (let num_element = length a in
     ebind (for_loop [0..<num_element]
       (\<lambda>i_element (a_mean, b_mean, a_valid, b_valid).
          ebind (vec_get a i_element) (\<lambda>ai.
          ebind (vec_get b i_element) (\<lambda>bi.
            if i_element > 0 then
              ebind (vec_get a (i_element - 1)) (\<lambda>a_prev.
              ebind (vec_get b (i_element - 1)) (\<lambda>b_prev.
                Inr (add32 a_mean ai, add32 b_mean bi,
                     (if ieee_differs ai a_prev then True else a_valid),
                     (if ieee_differs bi b_prev then True else b_valid))))
            else Inr (add32 a_mean ai, add32 b_mean bi, a_valid, b_valid))))
       (Finite 0, Finite 0, False, False))
     (\<lambda>(a_mean, b_mean, a_valid, b_valid).
        if a_valid \<and> b_valid then
          let a_mean = div32 a_mean (round32 (real num_element));
              b_mean = div32 b_mean (round32 (real num_element))
          in ebind (for_loop [0..<num_element]
            (\<lambda>i_element (above, below_a, below_b).
               ebind (vec_get a i_element) (\<lambda>ai.
               ebind (vec_get b i_element) (\<lambda>bi.
                 let a_shifted = sub32 ai a_mean; b_shifted = sub32 bi b_mean
                 in Inr (add32 above (mul32 a_shifted b_shifted),
                         add32 below_a (mul32 a_shifted a_shifted),
                         add32 below_b (mul32 b_shifted b_shifted)))))
            (Finite 0, Finite 0, Finite 0))
          (\<lambda>(above, below_a, below_b).
             Inr (to_float (add64 (Finite (1 / 2))
                    (div64 (mul64 (Finite (- (1 / 2))) above)
                           (mul32 (sqrt32 below_a) (sqrt32 below_b))))))
        else Inr (Finite 0)))"


text \<open>
  \<^verbatim>\<open>MahalanobisDivergencePolicy\<close>, constructed with the inverse covariance matrix
  \<open>m_inv_cov\<close>, and \<^verbatim>\<open>EuclideanDivergencePolicy\<close>.
\<close>

definition MahalanobisDivergencePolicy_binary32 ::
  "binary32 list list \<Rightarrow> binary32 list \<Rightarrow> binary32 list \<Rightarrow> error + binary32" where
  "MahalanobisDivergencePolicy_binary32 m_inv_cov a b =
    (let num_element = length a;
         num_element = (if num_element > length m_inv_cov then length m_inv_cov else num_element)
     in ebind (for_loop [0..<num_element]
          (\<lambda>i outsum.
             ebind (for_loop [0..<num_element]
               (\<lambda>j currval.
                  ebind (vec_get m_inv_cov i) (\<lambda>row.
                  ebind (vec_get row j) (\<lambda>c.
                  ebind (vec_get a j) (\<lambda>aj.
                  ebind (vec_get b j) (\<lambda>bj.
                    Inr (add32 currval (mul32 c (sub32 aj bj))))))))
               (Finite 0))
             (\<lambda>currval.
                ebind (vec_get a i) (\<lambda>ai.
                ebind (vec_get b i) (\<lambda>bi.
                  Inr (add32 outsum (mul32 currval (sub32 ai bi)))))))
          (Finite 0))
        (\<lambda>outsum. Inr (to_float (sqrt64 outsum))))"

definition EuclideanDivergencePolicy_binary32 :: "binary32 list \<Rightarrow> binary32 list \<Rightarrow> error + binary32" where
  "EuclideanDivergencePolicy_binary32 a b =
    (let num_element = length a
     in ebind (for_loop [0..<num_element]
          (\<lambda>i outsum.
             ebind (vec_get a i) (\<lambda>ai.
             ebind (vec_get b i) (\<lambda>bi.
               Inr (add32 outsum (mul32 (sub32 ai bi) (sub32 ai bi))))))
          (Finite 0))
        (\<lambda>outsum. Inr (to_float (sqrt64 outsum))))"

subsection \<open>The engine and its window boundaries\<close>

record StructuralChange =
  m_num_dim :: nat

text \<open>The constructor: \<^verbatim>\<open>StructuralChange(size_t num_dim) : m_num_dim(num_dim) {}\<close>.\<close>

definition StructuralChange :: "nat \<Rightarrow> StructuralChange" where
  "StructuralChange num_dim = \<lparr>m_num_dim = num_dim\<rparr>"

text \<open>
  The body of the frame loop of \<^verbatim>\<open>init_window_boundaries\<close>: the five integers
  \<open>[ll, i_frame, i_frame, rr, status]\<close> of one frame, indices into the cumulative matrix
  and the status \<open>0\<close> (normal), \<open>-1\<close>, \<open>-2\<close> or \<open>-3\<close>.
\<close>

definition window_boundary :: "nat \<Rightarrow> nat \<Rightarrow> nat \<Rightarrow> error + int list" where
  "window_boundary num_frame window_width i_frame =
    (let ll = int_of_size_t
                (if size_t_add i_frame 1 > window_width then size_t_sub i_frame window_width else 0);
         rr = int_of_size_t
                (if size_t_add i_frame window_width < num_frame
                 then size_t_add i_frame window_width else num_frame);
         wb = [ll, int_of_size_t i_frame, int_of_size_t i_frame, rr]
     in ebind (int_checked (2 * int_of_size_t window_width)) (\<lambda>twice.
        ebind (int_checked (rr - ll)) (\<lambda>both.
          if twice = both then Inr (wb @ [0])
          else if window_width = size_t_sub (size_t_of_int rr) i_frame then Inr (wb @ [- 1])
          else if window_width = size_t_sub i_frame (size_t_of_int ll) then Inr (wb @ [- 2])
          else Inr (wb @ [- 3]))))"

definition init_window_boundaries :: "StructuralChange \<Rightarrow> nat \<Rightarrow> error + int list list list" where
  "init_window_boundaries sc num_frame =
     emap (\<lambda>i_timescale.
        ebind (shl_1U i_timescale) (\<lambda>window_width.
          emap (window_boundary num_frame window_width) [0..<num_frame]))
       [0..<m_num_dim sc]"

text \<open>
  The status of a frame whose left and right windows hold \<open>l\<close> and \<open>r\<close> frames, at the
  window width \<open>w\<close>, and the five integers of frame \<open>i\<close> of \<open>N\<close>, in closed form.
\<close>

definition status_of :: "nat \<Rightarrow> nat \<Rightarrow> nat \<Rightarrow> int" where
  "status_of w l r = (if l = w \<and> r = w then 0 else if r = w then - 1 else if l = w then - 2 else - 3)"

definition boundary_of :: "nat \<Rightarrow> nat \<Rightarrow> nat \<Rightarrow> int list" where
  "boundary_of N w i = [int (i - w), int i, int i, int (min N (i + w)),
                status_of w (i - (i - w)) (min N (i + w) - i)]"

subsection \<open>The calculation\<close>

text \<open>
  \<^verbatim>\<open>v.resize(n)\<close> on a vector of floats: new elements are zero, and a size above
  \<^verbatim>\<open>max_size()\<close> throws \<^verbatim>\<open>std::length_error\<close>. The largest size of a vector of floats is
  \<^verbatim>\<open>PTRDIFF_MAX / sizeof(float)\<close>, with pointers of 64 bits and floats of 4 bytes.
\<close>

definition max_size :: nat where
  "max_size = 2 ^ 61 - 1"

definition resize :: "nat \<Rightarrow> 'a::zero list \<Rightarrow> error + 'a list" where
  "resize n v =
     (if n > max_size then Inl LengthError else Inr (take n v @ replicate (n - length v) 0))"

text \<open>\<^verbatim>\<open>m[i][t]\<close>, read and written.\<close>

definition mat_get :: "float list list \<Rightarrow> nat \<Rightarrow> nat \<Rightarrow> error + float" where
  "mat_get m i t = ebind (vec_get m i) (\<lambda>row. vec_get row t)"

definition mat_set :: "float list list \<Rightarrow> nat \<Rightarrow> nat \<Rightarrow> float \<Rightarrow> error + float list list" where
  "mat_set m i t x = ebind (vec_get m i) (\<lambda>row. ebind (vec_set row t x) (vec_set m i))"

text \<open>
  The first loop of \<^verbatim>\<open>calculate\<close>, over the frames: it carries
  \<open>(cumulative_vector, cumulative_matrix, change_matrix)\<close>, adds each input frame to
  the running sums, appends them as a new row of the cumulative matrix, and gives the
  frame's output vector its \<open>m_num_dim\<close> elements. The features are vectors of floats,
  which carry no other data (\<^verbatim>\<open>copy_meta\<close> does nothing). This is the loop of the exact
  level, where a sum is the sum of the reals; the sums that the floats give are those of
  \<open>calculate_cumulative_binary32\<close> below.
\<close>

definition calculate_cumulative ::
  "StructuralChange \<Rightarrow> float list list \<Rightarrow> nat \<Rightarrow>
     error + (float list \<times> float list list \<times> float list list)" where
  "calculate_cumulative sc input_vector num_element =
     for_loop [0..<length input_vector]
       (\<lambda>i_frame (cumulative_vector, cumulative_matrix, change_matrix).
          ebind (for_loop [0..<num_element]
            (\<lambda>i_element cumulative_vector.
               ebind (vec_get input_vector i_frame) (\<lambda>frame.
               ebind (vec_get frame i_element) (\<lambda>x.
               ebind (vec_get cumulative_vector i_element) (\<lambda>c.
                 vec_set cumulative_vector i_element (c + x)))))
            cumulative_vector)
          (\<lambda>cumulative_vector.
             ebind (vec_get change_matrix i_frame) (\<lambda>out.
             ebind (resize (m_num_dim sc) out) (\<lambda>out.
             ebind (vec_set change_matrix i_frame out) (\<lambda>change_matrix.
               Inr (cumulative_vector, cumulative_matrix @ [cumulative_vector], change_matrix))))))
       (replicate num_element 0, [replicate num_element 0], replicate (length input_vector) [])"

text \<open>The same loop in binary32 arithmetic: each addition rounds.\<close>

definition calculate_cumulative_binary32 ::
  "StructuralChange \<Rightarrow> binary32 list list \<Rightarrow> nat \<Rightarrow>
     error + (binary32 list \<times> binary32 list list \<times> binary32 list list)" where
  "calculate_cumulative_binary32 sc input_vector num_element =
     for_loop [0..<length input_vector]
       (\<lambda>i_frame (cumulative_vector, cumulative_matrix, change_matrix).
          ebind (for_loop [0..<num_element]
            (\<lambda>i_element cumulative_vector.
               ebind (vec_get input_vector i_frame) (\<lambda>frame.
               ebind (vec_get frame i_element) (\<lambda>x.
               ebind (vec_get cumulative_vector i_element) (\<lambda>c.
                 vec_set cumulative_vector i_element (add32 c x)))))
            cumulative_vector)
          (\<lambda>cumulative_vector.
             ebind (vec_get change_matrix i_frame) (\<lambda>out.
             ebind (resize (m_num_dim sc) out) (\<lambda>out.
             ebind (vec_set change_matrix i_frame out) (\<lambda>change_matrix.
               Inr (cumulative_vector, cumulative_matrix @ [cumulative_vector], change_matrix))))))
       (replicate num_element 0, [replicate num_element 0], replicate (length input_vector) [])"

text \<open>The placeholders of the frames whose windows are too short.\<close>

definition LEFT :: float where
  "LEFT = - 1.0"

definition RIGHT :: float where
  "RIGHT = - 2.0"

text \<open>
  The means of the left and right windows of a normal frame, from the cumulative
  matrix and the frame's boundaries \<open>wb\<close>: the loop over the dimensions of the input
  carries \<open>(mean_L, mean_R)\<close>.
\<close>

definition window_means ::
  "float list list \<Rightarrow> int list \<Rightarrow> nat \<Rightarrow> float list \<times> float list \<Rightarrow>
     error + (float list \<times> float list)" where
  "window_means cumulative_matrix wb num_element means =
     ebind (vec_get wb 1) (\<lambda>wb1.
     ebind (vec_get wb 0) (\<lambda>wb0.
     ebind (int_checked (wb1 - wb0)) (\<lambda>current_num_frames.
       for_loop [0..<num_element]
         (\<lambda>i_element (mean_L, mean_R).
            ebind (vec_get wb 1) (\<lambda>wb1.
            ebind (mat_get cumulative_matrix (size_t_of_int wb1) i_element) (\<lambda>c1.
            ebind (vec_get wb 0) (\<lambda>wb0.
            ebind (mat_get cumulative_matrix (size_t_of_int wb0) i_element) (\<lambda>c0.
            ebind (fdiv (c1 - c0) (real_of_int current_num_frames)) (\<lambda>l.
            ebind (vec_set mean_L i_element l) (\<lambda>mean_L.
            ebind (vec_get wb 3) (\<lambda>wb3.
            ebind (mat_get cumulative_matrix (size_t_of_int wb3) i_element) (\<lambda>c3.
            ebind (vec_get wb 2) (\<lambda>wb2.
            ebind (mat_get cumulative_matrix (size_t_of_int wb2) i_element) (\<lambda>c2.
            ebind (fdiv (c3 - c2) (real_of_int current_num_frames)) (\<lambda>r.
            ebind (vec_set mean_R i_element r) (\<lambda>mean_R.
              Inr (mean_L, mean_R))))))))))))))
         means)))"

text \<open>
  The first loop over the frames at one timescale: it carries
  \<open>(change_matrix, mean_L, mean_R, mean_div, count_valid)\<close>.
\<close>

definition calculate_frame ::
  "DivergencePolicy \<Rightarrow> float list list \<Rightarrow> int list list list \<Rightarrow> nat \<Rightarrow> nat \<Rightarrow> nat \<Rightarrow>
     float list list \<times> float list \<times> float list \<times> float \<times> int \<Rightarrow>
     error + (float list list \<times> float list \<times> float list \<times> float \<times> int)" where
  "calculate_frame divergence cumulative_matrix window_boundaries num_element i_timescale i_boundary =
     (\<lambda>(change_matrix, mean_L, mean_R, mean_div, count_valid).
        ebind (vec_get window_boundaries i_timescale) (\<lambda>wbs.
        ebind (vec_get wbs i_boundary) (\<lambda>wb.
        ebind (vec_get wb 4) (\<lambda>status.
          if status = 0 then
            ebind (window_means cumulative_matrix wb num_element (mean_L, mean_R)) (\<lambda>(mean_L, mean_R).
            ebind (divergence mean_L mean_R) (\<lambda>d.
            ebind (mat_set change_matrix i_boundary i_timescale d) (\<lambda>change_matrix.
            ebind (mat_get change_matrix i_boundary i_timescale) (\<lambda>v.
            ebind (int_checked (count_valid + 1)) (\<lambda>count_valid.
              Inr (change_matrix, mean_L, mean_R, mean_div + v, count_valid))))))
          else if status = - 1 then
            ebind (mat_set change_matrix i_boundary i_timescale LEFT) (\<lambda>change_matrix.
              Inr (change_matrix, mean_L, mean_R, mean_div, count_valid))
          else if status = - 2 then
            ebind (mat_set change_matrix i_boundary i_timescale RIGHT) (\<lambda>change_matrix.
              Inr (change_matrix, mean_L, mean_R, mean_div, count_valid))
          else
            ebind (mat_set change_matrix i_boundary i_timescale 0.0) (\<lambda>change_matrix.
              Inr (change_matrix, mean_L, mean_R, mean_div, count_valid))))))"

text \<open>The second loop over the frames at one timescale: the placeholders are replaced.\<close>

definition calculate_replace :: "float \<Rightarrow> nat \<Rightarrow> nat \<Rightarrow> float list list \<Rightarrow> error + float list list" where
  "calculate_replace mean_div i_timescale i_frame change_matrix =
     ebind (mat_get change_matrix i_frame i_timescale) (\<lambda>v.
       if v = RIGHT then mat_set change_matrix i_frame i_timescale (3 * mean_div)
       else if v = LEFT then mat_set change_matrix i_frame i_timescale ((- 1) * mean_div)
       else Inr change_matrix)"

text \<open>
  The body of the loop over the timescales: it carries \<open>(change_matrix, mean_L, mean_R)\<close>.
\<close>

definition calculate_timescale ::
  "DivergencePolicy \<Rightarrow> float list list \<Rightarrow> int list list list \<Rightarrow> nat \<Rightarrow> nat \<Rightarrow> nat \<Rightarrow>
     float list list \<times> float list \<times> float list \<Rightarrow>
     error + (float list list \<times> float list \<times> float list)" where
  "calculate_timescale divergence cumulative_matrix window_boundaries num_frame num_element i_timescale =
     (\<lambda>(change_matrix, mean_L, mean_R).
        ebind (vec_get window_boundaries i_timescale) (\<lambda>wbs.
        ebind (for_loop [0..<length wbs]
                 (calculate_frame divergence cumulative_matrix window_boundaries num_element i_timescale)
                 (change_matrix, mean_L, mean_R, 0, 0))
          (\<lambda>(change_matrix, mean_L, mean_R, mean_div, count_valid).
             let mean_div = (if count_valid > 0 then mean_div / real_of_int count_valid else mean_div)
             in ebind (for_loop [0..<num_frame] (calculate_replace mean_div i_timescale) change_matrix)
                  (\<lambda>change_matrix. Inr (change_matrix, mean_L, mean_R)))))"

text \<open>\<^verbatim>\<open>StructuralChange::calculate\<close>: the result is the new value of \<^verbatim>\<open>rv\<close>.\<close>

definition calculate ::
  "StructuralChange \<Rightarrow> float list list \<Rightarrow> DivergencePolicy \<Rightarrow> error + float list list" where
  "calculate sc input_vector divergence =
    (let num_frame = length input_vector in
     if num_frame = 0 then Inr []
     else
       ebind (vec_get input_vector 0) (\<lambda>frame0.
         let num_element = length frame0 in
         ebind (calculate_cumulative sc input_vector num_element)
           (\<lambda>(cumulative_vector, cumulative_matrix, change_matrix).
         ebind (init_window_boundaries sc num_frame) (\<lambda>window_boundaries.
         ebind (for_loop [0..<m_num_dim sc]
                  (calculate_timescale divergence cumulative_matrix window_boundaries
                     num_frame num_element)
                  (change_matrix, replicate num_element 0, replicate num_element 0))
           (\<lambda>(change_matrix, mean_L, mean_R). Inr change_matrix)))))"

subsection \<open>What the calculation computes, in closed form\<close>

text \<open>
  The rows of the cumulative matrix: row \<open>k\<close> holds, for each of the \<open>D\<close> dimensions, the
  sum of the frames before \<open>k\<close>. An input the first loop can read has frames of at
  least \<open>D\<close> elements.
\<close>

definition prefix_sums :: "float list list \<Rightarrow> nat \<Rightarrow> nat \<Rightarrow> float list" where
  "prefix_sums xs D k = map (\<lambda>e. \<Sum>f<k. xs ! f ! e) [0..<D]"

definition frames_wide :: "float list list \<Rightarrow> nat \<Rightarrow> bool" where
  "frames_wide xs D = (\<forall>f\<in>set xs. D \<le> length f)"

text \<open>
  The status that \<open>window_boundary\<close> gives frame \<open>i\<close> of \<open>N\<close> at the width \<open>w\<close>, and the
  frames it calls normal.
\<close>

definition frame_status :: "nat \<Rightarrow> nat \<Rightarrow> nat \<Rightarrow> int" where
  "frame_status N w i = status_of w (i - (i - w)) (min N (i + w) - i)"

definition normal_frames :: "nat \<Rightarrow> nat \<Rightarrow> nat list" where
  "normal_frames N w = filter (\<lambda>i. frame_status N w i = 0) [0..<N]"

text \<open>
  The mean of the frames \<open>j \<le> f < k\<close> in each dimension, and the divergence of the means of
  the windows before and after frame \<open>i\<close>: the value the policy computes at a normal frame.
\<close>

definition window_mean :: "float list list \<Rightarrow> nat \<Rightarrow> nat \<Rightarrow> nat \<Rightarrow> float list" where
  "window_mean xs D j k = map (\<lambda>e. (\<Sum>f = j..<k. xs ! f ! e) / real (k - j)) [0..<D]"

definition frame_divergence ::
  "DivergencePolicy \<Rightarrow> float list list \<Rightarrow> nat \<Rightarrow> nat \<Rightarrow> nat \<Rightarrow> error + float" where
  "frame_divergence divergence xs D w i =
     divergence (window_mean xs D (i - w) i) (window_mean xs D i (i + w))"

text \<open>
  The arithmetic mean of the divergences of the normal frames, 0 when there are none;
  the replacement of a placeholder; the value of a frame after the first loop over the
  frames and after the second, given the divergence \<open>d i\<close> of each normal frame \<open>i\<close>.
\<close>

definition mean_div_of :: "float list \<Rightarrow> float" where
  "mean_div_of vals = (if vals = [] then 0 else sum_list vals / real (length vals))"

definition replaced :: "float \<Rightarrow> float \<Rightarrow> float" where
  "replaced mean_div v = (if v = RIGHT then 3 * mean_div else if v = LEFT then (- 1) * mean_div else v)"

definition raw_value :: "(nat \<Rightarrow> float) \<Rightarrow> nat \<Rightarrow> nat \<Rightarrow> nat \<Rightarrow> float" where
  "raw_value d N w i =
     (let status = frame_status N w i
      in if status = 0 then d i else if status = - 1 then LEFT
         else if status = - 2 then RIGHT else 0)"

definition final_value :: "(nat \<Rightarrow> float) \<Rightarrow> nat \<Rightarrow> nat \<Rightarrow> nat \<Rightarrow> float" where
  "final_value d N w i =
     (let mean_div = mean_div_of (map d (normal_frames N w)); status = frame_status N w i
      in if status = 0 then replaced mean_div (d i)
         else if status = - 1 then (- 1) * mean_div
         else if status = - 2 then 3 * mean_div else 0)"

text \<open>
  The conditions under which \<^verbatim>\<open>calculate\<close> is defined on a sequence that is not empty: the
  frames are wide enough, the counts fit the 32-bit integers of the window boundaries,
  and the policy returns a value at every normal frame (as it does when it returns one
  on all vectors of the input's dimension). Then the output is \<open>expected_output\<close>.
\<close>

definition in_int_range :: "StructuralChange \<Rightarrow> float list list \<Rightarrow> bool" where
  "in_int_range sc xs = (m_num_dim sc = 0 \<or> m_num_dim sc \<le> 30 \<and> length xs < 2 ^ 31)"

definition divergences_defined :: "DivergencePolicy \<Rightarrow> float list list \<Rightarrow> nat \<Rightarrow> bool" where
  "divergences_defined divergence xs T =
     (\<forall>t<T. \<forall>i<length xs. frame_status (length xs) (2 ^ t) i = 0 \<longrightarrow>
        (\<exists>v. frame_divergence divergence xs (length (hd xs)) (2 ^ t) i = Inr v))"

definition expected_output :: "DivergencePolicy \<Rightarrow> float list list \<Rightarrow> nat \<Rightarrow> float list list" where
  "expected_output divergence xs T =
     map (\<lambda>j. map (\<lambda>t. final_value (\<lambda>i. projr (frame_divergence divergence xs (length (hd xs)) (2 ^ t) i))
                          (length xs) (2 ^ t) j) [0..<T]) [0..<length xs]"

definition policy_defined :: "DivergencePolicy \<Rightarrow> nat \<Rightarrow> bool" where
  "policy_defined divergence D =
     (\<forall>a b. length a = D \<and> length b = D \<longrightarrow> (\<exists>v. divergence a b = Inr v))"

text \<open>
  In binary32 arithmetic: the rows of the cumulative matrix are the running sums, each the
  rounded sum of the one before and a frame; \<open>exact_sums\<close> holds of an input of finite
  numbers whose sums of the frames before \<open>k\<close> are floats themselves, for every \<open>k\<close> (no
  addition of the loop rounds); \<open>finite_differences\<close> holds of two vectors when no
  difference of their elements is an infinity or NaN.
\<close>

definition running_sums :: "binary32 list list \<Rightarrow> nat \<Rightarrow> nat \<Rightarrow> binary32 list" where
  "running_sums xs D k = map (\<lambda>e. foldl add32 0 (map (\<lambda>f. xs ! f ! e) [0..<k])) [0..<D]"

definition exact_sums :: "binary32 list list \<Rightarrow> nat \<Rightarrow> bool" where
  "exact_sums xs D =
     (\<forall>k\<le>length xs. \<forall>e<D. (k < length xs \<longrightarrow> is_finite (xs ! k ! e)) \<and>
        round32 (\<Sum>f<k. value_of (xs ! f ! e)) = Finite (\<Sum>f<k. value_of (xs ! f ! e)))"

definition finite_differences :: "binary32 list \<Rightarrow> binary32 list \<Rightarrow> bool" where
  "finite_differences a b = (\<forall>j<length a. is_finite (sub32 (a ! j) (b ! j)))"

subsection \<open>Notions of the specification\<close>

text \<open>
  The words of the specification about the policies, to compare the program with: the
  identity matrix, and a vector that is no distribution (an element is negative, or the
  elements sum to zero).
\<close>

definition identity_matrix :: "nat \<Rightarrow> binary32 list list" where
  "identity_matrix n = map (\<lambda>i. map (\<lambda>j. Finite (if i = j then 1 else 0)) [0..<n]) [0..<n]"


section \<open>Properties\<close>

subsection \<open>Loops\<close>

lemma ebind_Inr [simp]: "ebind (Inr x) f = f x"
  by (simp add: ebind_def)

lemma ebind_Inl [simp]: "ebind (Inl e) f = Inl e"
  by (simp add: ebind_def)

lemma for_loop_append:
  "for_loop (xs @ ys) body s = ebind (for_loop xs body s) (for_loop ys body)"
  by (induction xs arbitrary: s) (auto split: sum.splits)

lemma for_loop_upt_Suc:
  "for_loop [0..<Suc n] body s = ebind (for_loop [0..<n] body s) (body n)"
  by (cases "for_loop [0..<n] body s") (simp_all add: for_loop_append split: sum.splits)

lemma for_loop_failure:
  assumes init: "I 0 s"
    and step: "\<And>i s. i < n \<Longrightarrow> I i s \<Longrightarrow>
       (if ok i then \<exists>s'. body i s = Inr s' \<and> I (Suc i) s' else \<exists>e. body i s = Inl e \<and> E e)"
  shows "if (\<forall>i<n. ok i) then \<exists>s'. for_loop [0..<n] body s = Inr s' \<and> I n s'
         else \<exists>e. for_loop [0..<n] body s = Inl e \<and> E e"
  using step
proof (induction n)
  case 0
  then show ?case using init by simp
next
  case (Suc n)
  have IH: "if (\<forall>i<n. ok i) then \<exists>s'. for_loop [0..<n] body s = Inr s' \<and> I n s'
         else \<exists>e. for_loop [0..<n] body s = Inl e \<and> E e"
    using Suc.prems by (intro Suc.IH) simp
  show ?case
  proof (cases "\<forall>i<n. ok i")
    case True
    with IH obtain s' where s': "for_loop [0..<n] body s = Inr s'" "I n s'" by auto
    have st: "if ok n then \<exists>s''. body n s' = Inr s'' \<and> I (Suc n) s''
              else \<exists>e. body n s' = Inl e \<and> E e"
      using Suc.prems[of n s'] s' by simp
    show ?thesis
    proof (cases "ok n")
      case True
      with st obtain s'' where "body n s' = Inr s''" "I (Suc n) s''" by auto
      moreover have "\<forall>i<Suc n. ok i" using True \<open>\<forall>i<n. ok i\<close> by (simp add: less_Suc_eq)
      ultimately show ?thesis using s' by (simp add: for_loop_upt_Suc del: upt_Suc)
    next
      case False
      with st obtain e where "body n s' = Inl e" "E e" by auto
      moreover have "\<not> (\<forall>i<Suc n. ok i)" using False by auto
      ultimately show ?thesis using s' by (simp add: for_loop_upt_Suc del: upt_Suc)
    qed
  next
    case False
    with IH obtain e where "for_loop [0..<n] body s = Inl e" "E e" by auto
    moreover have "\<not> (\<forall>i<Suc n. ok i)" using False by (auto simp: less_Suc_eq)
    ultimately show ?thesis by (simp add: for_loop_upt_Suc del: upt_Suc)
  qed
qed

lemma for_loop_cases:
  assumes init: "I 0 s"
    and step: "\<And>i s. i < n \<Longrightarrow> I i s \<Longrightarrow>
       (if ok i then \<exists>s'. body i s = Inr s' \<and> I (Suc i) s' else \<exists>e. body i s = Inl e)"
  shows "if (\<forall>i<n. ok i) then \<exists>s'. for_loop [0..<n] body s = Inr s' \<and> I n s'
         else \<exists>e. for_loop [0..<n] body s = Inl e"
proof -
  have "if (\<forall>i<n. ok i) then \<exists>s'. for_loop [0..<n] body s = Inr s' \<and> I n s'
        else \<exists>e. for_loop [0..<n] body s = Inl e \<and> True"
  proof (rule for_loop_failure[where E = "\<lambda>_. True" and I = I and ok = ok])
    show "I 0 s" by (rule init)
  next
    fix i s assume "i < n" "I i s"
    from step[OF this]
    show "if ok i then \<exists>s'. body i s = Inr s' \<and> I (Suc i) s' else \<exists>e. body i s = Inl e \<and> True"
      by simp
  qed
  then show ?thesis by (auto split: if_splits)
qed

lemma emap_Inr: "(\<And>x. x \<in> set xs \<Longrightarrow> f x = Inr (g x)) \<Longrightarrow> emap f xs = Inr (map g xs)"
  by (induction xs) auto

lemma emap_Inr_D:
  "emap f xs = Inr ys \<Longrightarrow> length ys = length xs \<and> (\<forall>i<length xs. f (xs ! i) = Inr (ys ! i))"
proof (induction xs arbitrary: ys)
  case Nil
  then show ?case by simp
next
  case (Cons x xs)
  then show ?case
    by (auto split: sum.splits simp: nth_Cons split: nat.splits)
qed

lemma emap_append_Inl: "emap f xs = Inl e \<Longrightarrow> emap f (xs @ ys) = Inl e"
  by (induction xs) (auto split: sum.splits)

lemma emap_Inl_D: "emap f xs = Inl e \<Longrightarrow> \<exists>x\<in>set xs. f x = Inl e"
  by (induction xs) (auto split: sum.splits)

lemma emap_snoc_Inl:
  "\<forall>x\<in>set xs. \<exists>y. f x = Inr y \<Longrightarrow> f z = Inl e \<Longrightarrow> emap f (xs @ [z]) = Inl e"
  by (induction xs) (auto split: sum.splits)

lemma for_loop_closed:
  "(\<And>i. i < n \<Longrightarrow> body i (F i) = Inr (F (Suc i))) \<Longrightarrow> for_loop [0..<n] body (F 0) = Inr (F n)"
proof (induction n)
  case 0
  then show ?case by simp
next
  case (Suc n)
  then have "for_loop [0..<n] body (F 0) = Inr (F n)" by simp
  then show ?case using Suc.prems[of n] by (simp add: for_loop_upt_Suc del: upt_Suc)
qed

lemma vec_get_in [simp]: "i < length v \<Longrightarrow> vec_get v i = Inr (v ! i)"
  by (simp add: vec_get_def)

lemma vec_set_in [simp]: "i < length v \<Longrightarrow> vec_set v i x = Inr (v[i := x])"
  by (simp add: vec_set_def)

lemma for_loop_invariant:
  assumes "I 0 s" and "\<And>i s. i < n \<Longrightarrow> I i s \<Longrightarrow> \<exists>s'. body i s = Inr s' \<and> I (Suc i) s'"
  shows "\<exists>s'. for_loop [0..<n] body s = Inr s' \<and> I n s'"
  using for_loop_cases[where ok = "\<lambda>_. True" and I = I and body = body and n = n and s = s] assms
  by simp

lemma for_loop_cong:
  "(\<And>i s. i \<in> set is \<Longrightarrow> body i s = body' i s) \<Longrightarrow> for_loop is body s = for_loop is body' s"
  by (induction "is" arbitrary: s) (auto split: sum.splits)

subsection \<open>Machine integers within their range\<close>

lemma int_of_size_t_small: "n < 2 ^ 31 \<Longrightarrow> int_of_size_t n = int n"
  by (simp add: int_of_size_t_def Let_def)

lemma size_t_of_int_small: "0 \<le> z \<Longrightarrow> z < 2 ^ 64 \<Longrightarrow> size_t_of_int z = nat z"
  by (simp add: size_t_of_int_def)

lemma size_t_add_small: "a + b < 2 ^ 64 \<Longrightarrow> size_t_add a b = a + b"
  by (simp add: size_t_add_def)

lemma size_t_sub_small: "b \<le> a \<Longrightarrow> a < 2 ^ 64 \<Longrightarrow> size_t_sub a b = a - b"
  by (simp add: size_t_sub_def nat_diff_distrib' of_nat_diff flip: of_nat_diff)

lemma int_checked_small: "- (2 ^ 31) \<le> z \<Longrightarrow> z < 2 ^ 31 \<Longrightarrow> int_checked z = Inr z"
  by (simp add: int_checked_def)

lemma window_boundary_in_range:
  assumes w: "0 < w" "w \<le> 2 ^ 29" and N: "N < 2 ^ 31" and i: "i < N"
  shows "window_boundary N w i =
           Inr [int (i - w), int i, int i, int (min N (i + w)),
                status_of w (i - (i - w)) (min N (i + w) - i)]"
proof -
  have b: "i < 2 ^ 31" "w < 2 ^ 31" "i + w < 2 ^ 64" "i + 1 < 2 ^ 64" "i < 2 ^ 64" "N < 2 ^ 64"
    using w N i by simp_all
  have adds: "size_t_add i 1 = i + 1" "size_t_add i w = i + w"
    using b by (simp_all add: size_t_add_small)
  define ll where "ll = (if i + 1 > w then size_t_sub i w else 0)"
  define rr where "rr = (if i + w < N then i + w else N)"
  have ll: "ll = i - w"
    using b by (auto simp: ll_def size_t_sub_small)
  have rr: "rr = min N (i + w)"
    by (auto simp: rr_def)
  have small: "ll < 2 ^ 31" "rr < 2 ^ 31" "ll \<le> i" "i \<le> rr"
    using b N i by (auto simp: ll rr)
  have conv: "int_of_size_t ll = int ll" "int_of_size_t rr = int rr" "int_of_size_t i = int i"
    "int_of_size_t w = int w"
    using small b by (simp_all add: int_of_size_t_small)
  have bck: "size_t_of_int (int rr) = rr" "size_t_of_int (int ll) = ll"
    using small by (simp_all add: size_t_of_int_small)
  have subs: "size_t_sub rr i = rr - i" "size_t_sub i ll = i - ll"
    using small b by (simp_all add: size_t_sub_small)
  have chk: "int_checked (2 * int w) = Inr (2 * int w)" "int_checked (int rr - int ll) = Inr (int rr - int ll)"
    using w small by (simp_all add: int_checked_small)
  have eq: "(2 * int w = int rr - int ll) = (i - ll = w \<and> rr - i = w)"
    using small w i by (auto simp: ll rr)
  have "window_boundary N w i =
      Inr [int ll, int i, int i, int rr, status_of w (i - ll) (rr - i)]"
    unfolding window_boundary_def adds Let_def ll_def[symmetric] rr_def[symmetric] conv bck subs chk
    by (simp add: status_of_def eq)
  then show ?thesis by (simp add: ll rr)
qed

subsection \<open>Window boundaries\<close>

lemma shl_1U_small: "t < 32 \<Longrightarrow> shl_1U t = Inr (2 ^ t)"
  by (simp add: shl_1U_def)

lemma init_window_boundaries_in_range:
  assumes "m_num_dim sc \<le> 30" "N < 2 ^ 31"
  shows "init_window_boundaries sc N =
           Inr (map (\<lambda>t. map (boundary_of N (2 ^ t)) [0..<N]) [0..<m_num_dim sc])"
  unfolding init_window_boundaries_def
proof (rule emap_Inr)
  fix t assume "t \<in> set [0..<m_num_dim sc]"
  then have t: "t \<le> 29" using assms by simp
  have w: "(0::nat) < 2 ^ t" "(2::nat) ^ t \<le> 2 ^ 29"
    by simp (rule power_increasing, use t in simp_all)
  have "emap (window_boundary N (2 ^ t)) [0..<N] = Inr (map (boundary_of N (2 ^ t)) [0..<N])"
    by (rule emap_Inr) (use w assms in \<open>simp add: window_boundary_in_range boundary_of_def\<close>)
  then show "ebind (shl_1U t) (\<lambda>window_width. emap (window_boundary N window_width) [0..<N]) =
        Inr (map (boundary_of N (2 ^ t)) [0..<N])"
    using t by (simp add: shl_1U_small)
qed

lemma window_boundary_wide30: "window_boundary N (2 ^ 30) i = Inl SignedOverflow"
  by (simp add: window_boundary_def Let_def int_of_size_t_def int_checked_def)

lemma window_boundary_many_frames:
  assumes t: "t \<le> 29" and N: "2 ^ 31 \<le> N"
  shows "window_boundary N (2 ^ t) (2 ^ 31 - 1) = Inl SignedOverflow"
proof -
  define w :: nat where "w = 2 ^ t"
  define i :: nat where "i = 2 ^ 31 - 1"
  have w: "0 < w" "w \<le> 2 ^ 29"
    unfolding w_def by simp (rule power_increasing, use t in simp_all)
  have i: "i = 2147483647" by (simp add: i_def)
  have adds: "size_t_add i 1 = i + 1" "size_t_add i w = i + w"
    using w i by (simp_all add: size_t_add_small)
  define rr where "rr = (if i + w < N then i + w else N)"
  have rr: "2 ^ 31 \<le> rr" "rr \<le> i + w"
    using N w i by (auto simp: rr_def)
  have ll: "int_of_size_t (size_t_sub i w) = int i - int w"
    using w i by (simp add: size_t_sub_small int_of_size_t_small)
  have "int rr mod 2 ^ 32 = int rr"
    using rr w i by simp
  then have irr: "int_of_size_t rr = int rr - 2 ^ 32"
    using rr by (simp add: int_of_size_t_def Let_def)
  have chk: "int_checked (2 * int_of_size_t w) = Inr (2 * int w)"
    using w by (simp add: int_of_size_t_small int_checked_small)
  have "int rr - 2 ^ 32 - (int i - int w) < - (2 ^ 31)"
    using rr w i by simp
  then have ovf: "int_checked (int rr - 2 ^ 32 - (int i - int w)) = Inl SignedOverflow"
    by (simp add: int_checked_def)
  have gt: "w < i + 1" using w i by simp
  show ?thesis
    unfolding w_def[symmetric] i_def[symmetric] window_boundary_def adds Let_def
      rr_def[symmetric]
    by (simp only: gt if_True ll irr chk ovf ebind_Inr ebind_Inl)
qed

lemma init_window_boundaries_Inr_iff:
  assumes "0 < N"
  shows "(\<exists>wbs. init_window_boundaries sc N = Inr wbs) \<longleftrightarrow>
         (m_num_dim sc = 0 \<or> m_num_dim sc \<le> 30 \<and> N < 2 ^ 31)"
proof
  assume "\<exists>wbs. init_window_boundaries sc N = Inr wbs"
  then obtain wbs where wbs: "init_window_boundaries sc N = Inr wbs" ..
  let ?f = "\<lambda>t. ebind (shl_1U t) (\<lambda>w. emap (window_boundary N w) [0..<N])"
  have ok: "\<exists>y. ?f t = Inr y" if "t < m_num_dim sc" for t
    using emap_Inr_D[OF wbs[unfolded init_window_boundaries_def]] that by auto
  have frame: "\<exists>y. window_boundary N (2 ^ t) i = Inr y" if "t < m_num_dim sc" "i < N" for t i
  proof -
    from ok[OF that(1)] obtain y where y: "?f t = Inr y" ..
    then have t: "t < 32" by (auto simp: shl_1U_def split: if_splits)
    with y have "emap (window_boundary N (2 ^ t)) [0..<N] = Inr y" by (simp add: shl_1U_def)
    from emap_Inr_D[OF this] that(2) show ?thesis by auto
  qed
  show "m_num_dim sc = 0 \<or> m_num_dim sc \<le> 30 \<and> N < 2 ^ 31"
  proof (rule ccontr)
    assume neg: "\<not> ?thesis"
    then have T: "0 < m_num_dim sc" by simp
    show False
    proof (cases "m_num_dim sc \<le> 30")
      case False
      then have "30 < m_num_dim sc" by simp
      from frame[OF this assms] show False by (simp only: window_boundary_wide30) simp
    next
      case True
      with neg have N: "2 ^ 31 \<le> N" by simp
      then have "2 ^ 31 - 1 < N" by simp
      from frame[OF T this] obtain y where "window_boundary N (2 ^ 0) (2 ^ 31 - 1) = Inr y" ..
      then show False
        by (simp only: window_boundary_many_frames[OF _ N, of 0]) simp
    qed
  qed
next
  assume "m_num_dim sc = 0 \<or> m_num_dim sc \<le> 30 \<and> N < 2 ^ 31"
  then show "\<exists>wbs. init_window_boundaries sc N = Inr wbs"
  proof
    assume "m_num_dim sc = 0"
    then show ?thesis by (simp add: init_window_boundaries_def)
  next
    assume "m_num_dim sc \<le> 30 \<and> N < 2 ^ 31"
    then show ?thesis by (simp only: init_window_boundaries_in_range) simp
  qed
qed

lemma window_boundary_error: "window_boundary N w i = Inl e \<Longrightarrow> e = SignedOverflow"
  by (auto simp: window_boundary_def Let_def int_checked_def ebind_def split: if_splits sum.splits)

lemma init_window_boundaries_overflow:
  assumes N: "0 < N" and T: "30 < m_num_dim sc"
  shows "init_window_boundaries sc N = Inl SignedOverflow"
proof -
  let ?f = "\<lambda>t. ebind (shl_1U t) (\<lambda>w. emap (window_boundary N w) [0..<N])"
  have split: "[0..<m_num_dim sc] = [0..<31] @ [31..<m_num_dim sc]"
    using T upt_add_eq_append[of 0 31 "m_num_dim sc - 31"] by simp
  have "\<not> (\<exists>wbs. init_window_boundaries (StructuralChange 31) N = Inr wbs)"
    using init_window_boundaries_Inr_iff[OF N, of "StructuralChange 31"]
    by (simp add: StructuralChange_def)
  then obtain e where e: "emap ?f [0..<31] = Inl e"
    unfolding init_window_boundaries_def
    by (cases "emap ?f [0..<31]") (auto simp: StructuralChange_def)
  from emap_Inl_D[OF e] obtain t where t: "t < 31" "?f t = Inl e" by auto
  then have "emap (window_boundary N (2 ^ t)) [0..<N] = Inl e" by (simp add: shl_1U_def)
  from emap_Inl_D[OF this] obtain i where "window_boundary N (2 ^ t) i = Inl e" by auto
  then have "e = SignedOverflow" by (rule window_boundary_error)
  with e show ?thesis
    unfolding init_window_boundaries_def split by (simp add: emap_append_Inl)
qed

lemma upt_31: "[0..<31] = [0..<30] @ [30]"
  using upt_Suc_append[of 0 30] by simp

lemma init_window_boundaries_31: "init_window_boundaries (StructuralChange 31) 1 = Inl SignedOverflow"
proof -
  let ?f = "\<lambda>t. ebind (shl_1U t) (\<lambda>w. emap (window_boundary 1 w) [0..<1])"
  have ok: "\<forall>t\<in>set [0..<30]. \<exists>y. ?f t = Inr y"
  proof
    fix t :: nat assume that: "t \<in> set [0..<30]"
    have "init_window_boundaries (StructuralChange 30) 1 =
       Inr (map (\<lambda>t. map (boundary_of 1 (2 ^ t)) [0..<1]) [0..<m_num_dim (StructuralChange 30)])"
      by (rule init_window_boundaries_in_range) (simp_all add: StructuralChange_def)
    from emap_Inr_D[OF this[unfolded init_window_boundaries_def]] that
    show "\<exists>y. ?f t = Inr y" by (auto simp: StructuralChange_def)
  qed
  have bad: "?f 30 = Inl SignedOverflow"
    using window_boundary_wide30[of 1 0] by (simp add: shl_1U_def)
  show ?thesis
    unfolding init_window_boundaries_def StructuralChange_def
    by (simp only: StructuralChange.simps upt_31) (rule emap_snoc_Inl[where f = ?f, OF ok bad])
qed

text \<open>
  Claim C2, within the range of the 32-bit integers. For every engine of at most 30
  timescales, every frame count \<open>N < 2 ^ 31\<close>, every timescale \<open>t\<close> of the engine (so
  \<open>t \<le> 29\<close>, half-width \<open>w = 2 ^ t\<close>) and every frame \<open>i < N\<close>, the table of window
  boundaries is computed and its entry for \<open>t\<close> and \<open>i\<close> is
  \<open>[leftStart, i, i, rightEnd, status]\<close> with \<open>leftStart = max 0 (i - w)\<close>,
  \<open>rightEnd = min N (i + w)\<close>, \<open>0 \<le> leftStart \<le> i \<le> rightEnd \<le> N\<close>; the status is
  \<open>0\<close> (normal) exactly when both windows hold \<open>w\<close> frames, \<open>-1\<close> (left-truncated)
  exactly when only the right window does, \<open>-2\<close> (right-truncated) exactly when only the
  left window does, and \<open>-3\<close> (both truncated) exactly when neither does.
\<close>

theorem window_boundaries_within_int_range:
  assumes "m_num_dim sc \<le> 30" and "N < 2 ^ 31" and "t < m_num_dim sc" and "i < N"
  shows "\<exists>wbs ll rr status.
     init_window_boundaries sc N = Inr wbs \<and> length wbs = m_num_dim sc \<and> length (wbs ! t) = N \<and>
     wbs ! t ! i = [ll, int i, int i, rr, status] \<and>
     ll = max 0 (int i - 2 ^ t) \<and> rr = min (int N) (int i + 2 ^ t) \<and>
     0 \<le> ll \<and> ll \<le> int i \<and> int i \<le> rr \<and> rr \<le> int N \<and>
     (status = 0) = (int i - ll = 2 ^ t \<and> rr - int i = 2 ^ t) \<and>
     (status = - 1) = (int i - ll \<noteq> 2 ^ t \<and> rr - int i = 2 ^ t) \<and>
     (status = - 2) = (int i - ll = 2 ^ t \<and> rr - int i \<noteq> 2 ^ t) \<and>
     (status = - 3) = (int i - ll \<noteq> 2 ^ t \<and> rr - int i \<noteq> 2 ^ t)"
proof -
  define w :: nat where "w = 2 ^ t"
  define wbs where "wbs = map (\<lambda>t. map (boundary_of N (2 ^ t)) [0..<N]) [0..<m_num_dim sc]"
  have run: "init_window_boundaries sc N = Inr wbs"
    unfolding wbs_def using assms(1,2) by (rule init_window_boundaries_in_range)
  have at: "wbs ! t ! i = boundary_of N w i" "length wbs = m_num_dim sc" "length (wbs ! t) = N"
    using assms(3,4) by (simp_all add: wbs_def w_def)
  have w: "0 < w" by (simp add: w_def)
  have pw: "(2::int) ^ t = int w" by (simp add: w_def)
  define ll where "ll = int (i - w)"
  define rr where "rr = int (min N (i + w))"
  define status where "status = status_of w (i - (i - w)) (min N (i + w) - i)"
  have 1: "wbs ! t ! i = [ll, int i, int i, rr, status]"
    by (simp add: at boundary_of_def ll_def rr_def status_def)
  have 2: "ll = max 0 (int i - int w)" "rr = min (int N) (int i + int w)"
    by (auto simp: ll_def rr_def)
  have 3: "0 \<le> ll" "ll \<le> int i" "int i \<le> rr" "rr \<le> int N"
    using assms(4) by (auto simp: ll_def rr_def)
  have sz: "int i - ll = int (i - (i - w))" "rr - int i = int (min N (i + w) - i)"
    using assms(4) by (auto simp: ll_def rr_def)
  have 4: "(status = 0) = (int i - ll = int w \<and> rr - int i = int w)"
    "(status = - 1) = (int i - ll \<noteq> int w \<and> rr - int i = int w)"
    "(status = - 2) = (int i - ll = int w \<and> rr - int i \<noteq> int w)"
    "(status = - 3) = (int i - ll \<noteq> int w \<and> rr - int i \<noteq> int w)"
    unfolding sz status_def status_of_def by (simp_all only: of_nat_eq_iff) auto
  show ?thesis
    unfolding pw using run at(2,3) 1 2 3 4 by blast
qed

text \<open>The same at three timescales and six frames: the last frame at half-width 2.\<close>

theorem window_boundaries_within_int_range_witness:
  "m_num_dim (StructuralChange 3) \<le> 30 \<and> (6::nat) < 2 ^ 31 \<and> 1 < m_num_dim (StructuralChange 3) \<and>
   (5::nat) < 6 \<and>
   (\<exists>wbs. init_window_boundaries (StructuralChange 3) 6 = Inr wbs \<and> wbs ! 1 ! 5 = [3, 5, 5, 6, - 2])"
proof -
  have h: "m_num_dim (StructuralChange 3) \<le> 30" "(6::nat) < 2 ^ 31" "1 < m_num_dim (StructuralChange 3)"
    "(5::nat) < 6"
    by (simp_all add: StructuralChange_def)
  from window_boundaries_within_int_range[OF h]
  show ?thesis using h by auto
qed

text \<open>
  Claim C2 as stated, for every timescale and every frame count, fails: with 31
  timescales and one frame the table is not computed, since at timescale 30 twice the
  window width overflows the \<^verbatim>\<open>int\<close>; with \<open>2 ^ 31\<close> frames the boundaries of the last
  frame at timescale 0 overflow; and at timescale 32 the shift \<^verbatim>\<open>1U << 32\<close> has no value.
\<close>

theorem window_boundaries_counterexample:
  "init_window_boundaries (StructuralChange 31) 1 = Inl SignedOverflow \<and>
   window_boundary (2 ^ 31) (2 ^ 0) (2 ^ 31 - 1) = Inl SignedOverflow \<and>
   shl_1U 32 = Inl ShiftTooLarge"
proof -
  have "window_boundary (2 ^ 31) (2 ^ 0) (2 ^ 31 - 1) = Inl SignedOverflow"
    by (rule window_boundary_many_frames) simp_all
  moreover have "shl_1U 32 = Inl ShiftTooLarge"
    by (simp add: shl_1U_def)
  ultimately show ?thesis using init_window_boundaries_31 by blast
qed

subsection \<open>Rounding\<close>

lemma round_even_of_int [simp]: "round_even (of_int m) = m"
  by (simp add: round_even_def)

lemma round_even_near: "\<bar>q - of_int m\<bar> < 1 / 2 \<Longrightarrow> round_even q = m"
proof -
  assume a: "\<bar>q - of_int m\<bar> < 1 / 2"
  show ?thesis
  proof (cases "of_int m \<le> q")
    case True
    then have "\<lfloor>q\<rfloor> = m" using a by (intro floor_unique) auto
    then show ?thesis using a True by (simp add: round_even_def)
  next
    case False
    then have f: "\<lfloor>q\<rfloor> = m - 1" using a by (intro floor_unique) auto
    then show ?thesis using a False by (auto simp: round_even_def Let_def)
  qed
qed

lemma round_even_le: "q \<le> of_int M \<Longrightarrow> round_even q \<le> M"
proof -
  assume a: "q \<le> of_int M"
  have f: "\<lfloor>q\<rfloor> \<le> M" using a by (simp add: floor_le_iff)
  show ?thesis
  proof (cases "\<lfloor>q\<rfloor> = M")
    case True
    then have "q = of_int M" using a of_int_floor_le[of q] by linarith
    then show ?thesis by simp
  next
    case False
    then have "\<lfloor>q\<rfloor> + 1 \<le> M" using f by simp
    then show ?thesis by (auto simp: round_even_def Let_def)
  qed
qed

lemma round_even_ge: "of_int M \<le> q \<Longrightarrow> M \<le> round_even q"
proof -
  assume a: "of_int M \<le> q"
  then have "M \<le> \<lfloor>q\<rfloor>" by (simp add: le_floor_iff)
  then show ?thesis by (auto simp: round_even_def Let_def)
qed

lemma powr2_powi: "(2::real) powr real_of_int k = 2 powi k"
  by (simp add: powr_real_of_int')

lemma log2_bounds:
  assumes "0 < z"
  shows "2 powi \<lfloor>log 2 z\<rfloor> \<le> z" "z < 2 powi (\<lfloor>log 2 z\<rfloor> + 1)"
proof -
  have "2 powr real_of_int \<lfloor>log 2 z\<rfloor> \<le> z \<and> z < 2 powr real_of_int (\<lfloor>log 2 z\<rfloor> + 1)"
    using floor_log_eq_powr_iff[of z 2 "\<lfloor>log 2 z\<rfloor>"] assms by simp
  then show "2 powi \<lfloor>log 2 z\<rfloor> \<le> z" "z < 2 powi (\<lfloor>log 2 z\<rfloor> + 1)"
    unfolding powr2_powi by simp_all
qed

lemma floor_log2_eq:
  assumes "2 powi k \<le> z" "z < 2 powi (k + 1)"
  shows "\<lfloor>log 2 z\<rfloor> = k"
proof -
  have z: "0 < z" using assms(1) zero_less_power_int[of "2::real" k] by linarith
  have "2 powr real_of_int k \<le> z \<and> z < 2 powr real_of_int (k + 1)"
    unfolding powr2_powi using assms by simp
  then show ?thesis
    using floor_log_eq_powr_iff[of z 2 k] z by simp
qed

lemma powi2_less_D: "(2::real) powi a < 2 powi b \<Longrightarrow> a < b"
  using power_int_increasing[of b a "2::real"] by (cases "a < b") simp_all


lemma round_to_binade:
  assumes "2 powi k \<le> \<bar>x\<bar>" "\<bar>x\<bar> < 2 powi (k + 1)"
  shows "round_to p emin emax x =
     (let q = 2 powi (max emin k - int p + 1); y = of_int (round_even (x / q)) * q
      in if 2 powi (emax + 1) \<le> \<bar>y\<bar> then (if 0 < x then PInf else NInf) else Finite y)"
proof -
  have "0 < \<bar>x\<bar>" using assms(1) zero_less_power_int[of "2::real" k] by linarith
  then have "x \<noteq> 0" by simp
  moreover have "\<lfloor>log 2 \<bar>x\<bar>\<rfloor> = k" using assms by (rule floor_log2_eq)
  ultimately show ?thesis by (simp add: round_to_def quantum_def)
qed

lemma round_to_integral:
  assumes "y / quantum p emin y = of_int m" and "\<bar>y\<bar> < 2 powi (emax + 1)"
  shows "round_to p emin emax y = Finite y"
proof (cases "y = 0")
  case True
  then show ?thesis by (simp add: round_to_def)
next
  case False
  have q: "0 < quantum p emin y" by (simp add: quantum_def)
  have "of_int m * quantum p emin y = y"
    using assms(1) q by (simp add: field_simps)
  then show ?thesis
    using False assms by (simp add: round_to_def Let_def)
qed

lemma round_to_fixed:
  assumes y: "y = of_int n * 2 powi E" and n: "\<bar>n\<bar> \<le> 2 ^ p" and E: "emin - int p + 1 \<le> E"
    and p: "0 < p" and fin: "\<bar>y\<bar> < 2 powi (emax + 1)"
  shows "round_to p emin emax y = Finite y"
proof (cases "y = 0")
  case True
  then show ?thesis by (simp add: round_to_def)
next
  case False
  define k where "k = \<lfloor>log 2 \<bar>y\<bar>\<rfloor>"
  define E' where "E' = max emin k - int p + 1"
  have pos: "0 < \<bar>y\<bar>" using False by simp
  note kb = log2_bounds[OF pos, folded k_def]
  have absy: "\<bar>y\<bar> = of_int \<bar>n\<bar> * 2 powi E"
    unfolding y by (simp add: abs_mult)
  have q: "quantum p emin y = 2 powi E'" by (simp add: quantum_def k_def E'_def)
  have "\<exists>m. y / 2 powi E' = of_int m"
  proof (cases "\<bar>n\<bar> = 2 ^ p")
    case True
    have "\<bar>y\<bar> = 2 powi (int p + E)"
      unfolding absy True by (simp add: power_int_add)
    then have "k = int p + E"
      unfolding k_def by (intro floor_log2_eq) (simp_all add: power_int_add)
    then have E': "E' = E + 1" using E p by (simp add: E'_def)
    have "even \<bar>n\<bar>" unfolding True using p by simp
    then have "even n" by (simp add: abs_if split: if_splits)
    then obtain h where h: "n = 2 * h" by (auto elim: evenE)
    have "y / 2 powi E' = of_int h"
      unfolding y E' h by (simp add: power_int_add)
    then show ?thesis ..
  next
    case False
    then have "\<bar>n\<bar> < 2 ^ p" using n by simp
    then have "(of_int \<bar>n\<bar> :: real) < of_int (2 ^ p)"
      by (simp only: of_int_less_iff)
    then have "(of_int \<bar>n\<bar> :: real) < 2 ^ p" by simp
    then have "\<bar>y\<bar> < 2 ^ p * 2 powi E"
      unfolding absy by (simp add: mult_strict_right_mono)
    then have "\<bar>y\<bar> < 2 powi (int p + E)"
      by (simp add: power_int_add)
    with kb(1) have "(2::real) powi k < 2 powi (int p + E)" by linarith
    then have "k < int p + E" by (rule powi2_less_D)
    then have le: "E' \<le> E" using E by (simp add: E'_def)
    define d where "d = nat (E - E')"
    have "E = E' + int d" using le by (simp add: d_def)
    then have "(2::real) powi E = 2 powi E' * 2 ^ d"
      by (simp add: power_int_add)
    then have "y / 2 powi E' = of_int (n * 2 ^ d)"
      unfolding y by simp
    then show ?thesis ..
  qed
  then obtain m where "y / quantum p emin y = of_int m" unfolding q ..
  then show ?thesis using fin by (rule round_to_integral)
qed

lemma round_to_idem:
  assumes r: "round_to p emin emax x = Finite y" and p: "0 < p"
  shows "round_to p emin emax y = Finite y"
proof (cases "x = 0")
  case True
  then show ?thesis using r by (auto simp: round_to_def)
next
  case False
  define k where "k = \<lfloor>log 2 \<bar>x\<bar>\<rfloor>"
  define E where "E = max emin k - int p + 1"
  define n where "n = round_even (x / 2 powi E)"
  have pos: "0 < \<bar>x\<bar>" using False by simp
  note kb = log2_bounds[OF pos, folded k_def]
  have q: "quantum p emin x = 2 powi E" by (simp add: quantum_def k_def E_def)
  have y: "y = of_int n * 2 powi E" and fin: "\<bar>y\<bar> < 2 powi (emax + 1)"
    using r False unfolding round_to_def q Let_def n_def[symmetric]
    by (auto split: if_splits)
  have "k + 1 \<le> int p + E" by (simp add: E_def)
  then have "(2::real) powi (k + 1) \<le> 2 powi (int p + E)"
    by (intro power_int_increasing) simp_all
  then have "\<bar>x\<bar> < 2 ^ p * 2 powi E"
    using kb(2) by (simp add: power_int_add)
  then have "x \<le> 2 ^ p * 2 powi E" "- (2 ^ p * 2 powi E) \<le> x"
    by (simp_all add: abs_less_iff)
  then have b: "x / 2 powi E \<le> of_int (2 ^ p)" "of_int (- (2 ^ p)) \<le> x / 2 powi E"
    by (simp_all add: field_simps)
  have "n \<le> 2 ^ p" "- (2 ^ p) \<le> n"
    unfolding n_def using round_even_le[OF b(1)] round_even_ge[OF b(2)] by simp_all
  then have n: "\<bar>n\<bar> \<le> 2 ^ p" by simp
  have E: "emin - int p + 1 \<le> E" by (simp add: E_def)
  show ?thesis using y n E p fin by (rule round_to_fixed)
qed


lemma round_even_numeral [simp]:
  "round_even (numeral k) = numeral k" "round_even (- numeral k) = - numeral k"
  "round_even 0 = 0" "round_even 1 = 1" "round_even (- 1) = - 1"
  using round_even_of_int[of "numeral k"] round_even_of_int[of "- numeral k"]
    round_even_of_int[of 0] round_even_of_int[of 1] round_even_of_int[of "- 1"]
  by simp_all

lemma round32_binade:
  assumes "2 powi k \<le> \<bar>x\<bar>" "\<bar>x\<bar> < 2 powi (k + 1)"
  shows "round32 x =
     (let q = 2 powi (max (- 126) k - 23); y = of_int (round_even (x / q)) * q
      in if 2 powi 128 \<le> \<bar>y\<bar> then (if 0 < x then PInf else NInf) else Finite y)"
  unfolding round32_def using round_to_binade[OF assms, of 24 "- 126" 127] by simp

lemma round64_binade:
  assumes "2 powi k \<le> \<bar>x\<bar>" "\<bar>x\<bar> < 2 powi (k + 1)"
  shows "round64 x =
     (let q = 2 powi (max (- 1022) k - 52); y = of_int (round_even (x / q)) * q
      in if 2 powi 1024 \<le> \<bar>y\<bar> then (if 0 < x then PInf else NInf) else Finite y)"
  unfolding round64_def using round_to_binade[OF assms, of 53 "- 1022" 1023] by simp

lemma round32_dyadic:
  assumes "y = of_int n * 2 powi E" "\<bar>n\<bar> \<le> 2 ^ 24" "- 149 \<le> E" "\<bar>y\<bar> < 2 powi 128"
  shows "round32 y = Finite y"
  unfolding round32_def using assms by (intro round_to_fixed[where n = n and E = E]) simp_all

lemma round64_dyadic:
  assumes "y = of_int n * 2 powi E" "\<bar>n\<bar> \<le> 2 ^ 53" "- 1074 \<le> E" "\<bar>y\<bar> < 2 powi 1024"
  shows "round64 y = Finite y"
  unfolding round64_def using assms by (intro round_to_fixed[where n = n and E = E]) simp_all

lemma round32_int: "\<bar>n\<bar> \<le> 2 ^ 24 \<Longrightarrow> round32 (of_int n) = Finite (of_int n)"
proof -
  assume n: "\<bar>n\<bar> \<le> 2 ^ 24"
  then have "\<bar>of_int n :: real\<bar> \<le> 2 ^ 24"
    by (metis of_int_abs of_int_le_iff of_int_numeral of_int_power)
  then have "\<bar>of_int n :: real\<bar> < 2 powi 128" by simp
  with n show ?thesis by (intro round32_dyadic[where n = n and E = 0]) simp_all
qed

lemma round64_int: "\<bar>n\<bar> \<le> 2 ^ 53 \<Longrightarrow> round64 (of_int n) = Finite (of_int n)"
proof -
  assume n: "\<bar>n\<bar> \<le> 2 ^ 53"
  then have "\<bar>of_int n :: real\<bar> \<le> 2 ^ 53"
    by (metis of_int_abs of_int_le_iff of_int_numeral of_int_power)
  then have "\<bar>of_int n :: real\<bar> < 2 powi 1024" by simp
  with n show ?thesis by (intro round64_dyadic[where n = n and E = 0]) simp_all
qed

lemma round32_numeral [simp]:
  "numeral k \<le> (16777216 :: int) \<Longrightarrow> round32 (numeral k) = Finite (numeral k)"
  "numeral k \<le> (16777216 :: int) \<Longrightarrow> round32 (- numeral k) = Finite (- numeral k)"
  "round32 1 = Finite 1" "round32 (- 1) = Finite (- 1)"
  using round32_int[of "numeral k"] round32_int[of "- numeral k"] round32_int[of 1]
    round32_int[of "- 1"]
  by simp_all

lemma round64_numeral [simp]:
  "numeral k \<le> (9007199254740992 :: int) \<Longrightarrow> round64 (numeral k) = Finite (numeral k)"
  "numeral k \<le> (9007199254740992 :: int) \<Longrightarrow> round64 (- numeral k) = Finite (- numeral k)"
  "round64 1 = Finite 1" "round64 (- 1) = Finite (- 1)" "round64 0 = Finite 0"
  using round64_int[of "numeral k"] round64_int[of "- numeral k"] round64_int[of 1]
    round64_int[of "- 1"] round64_int[of 0]
  by simp_all

lemma round32_idem: "round32 x = Finite y \<Longrightarrow> round32 y = Finite y"
  unfolding round32_def by (rule round_to_idem) simp_all

lemma round32_0 [simp]: "round32 0 = Finite 0"
  by (simp add: round32_def round_to_def)





lemma is_finite_iff: "is_finite v \<longleftrightarrow> (\<exists>x. v = Finite x)"
  by (cases v) auto

subsection \<open>The Euclidean policy in exact arithmetic\<close>

lemma fsqrt_nonneg [simp]: "0 \<le> x \<Longrightarrow> fsqrt x = Inr (sqrt x)"
  by (simp add: fsqrt_def)

lemma fdiv_nonzero [simp]: "y \<noteq> 0 \<Longrightarrow> fdiv x y = Inr (x / y)"
  by (simp add: fdiv_def)

lemma Euclidean_closed:
  assumes "length a \<le> length b"
  shows "EuclideanDivergencePolicy a b = Inr (sqrt (\<Sum>i<length a. (a ! i - b ! i) * (a ! i - b ! i)))"
proof -
  let ?body = "\<lambda>i outsum. ebind (vec_get a i) (\<lambda>ai. ebind (vec_get b i) (\<lambda>bi.
                 Inr (outsum + (ai - bi) * (ai - bi))))"
  let ?F = "\<lambda>k. \<Sum>i<k. (a ! i - b ! i) * (a ! i - b ! i)"
  have "for_loop [0..<length a] ?body (?F 0) = Inr (?F (length a))"
    by (rule for_loop_closed) (use assms in simp)
  moreover have "0 \<le> ?F (length a)"
    by (rule sum_nonneg) simp
  ultimately show ?thesis
    by (simp add: EuclideanDivergencePolicy_def)
qed

subsection \<open>The Euclidean and Mahalanobis policies in binary32 arithmetic\<close>

lemma sub32_Finite_D: "sub32 u v = Finite x \<Longrightarrow> round32 x = Finite x"
  by (cases u; cases v) (auto simp: ieee_sub_def dest: round32_idem)

lemma identity_row:
  fixes a b :: "binary32 list"
  assumes len: "length a = n" "length b = n" and i: "i < n"
    and fin: "\<forall>j<n. \<exists>x. sub32 (a ! j) (b ! j) = Finite x"
  shows "for_loop [0..<n]
               (\<lambda>j currval.
                  ebind (vec_get (identity_matrix n) i) (\<lambda>row.
                  ebind (vec_get row j) (\<lambda>c.
                  ebind (vec_get a j) (\<lambda>aj.
                  ebind (vec_get b j) (\<lambda>bj.
                    Inr (add32 currval (mul32 c (sub32 aj bj))))))))
               (Finite 0) = Inr (sub32 (a ! i) (b ! i))"
    (is "for_loop _ ?body _ = _")
proof -
  define F where "F = (\<lambda>k. if i < k then sub32 (a ! i) (b ! i) else Finite 0)"
  have "for_loop [0..<n] ?body (F 0) = Inr (F n)"
  proof (rule for_loop_closed)
    fix j assume j: "j < n"
    from fin j obtain x where x: "sub32 (a ! j) (b ! j) = Finite x" by auto
    from fin i obtain y where y: "sub32 (a ! i) (b ! i) = Finite y" by auto
    have fx: "round32 x = Finite x" "round32 y = Finite y"
      using x y by (auto dest: sub32_Finite_D)
    have c: "vec_get (identity_matrix n) i = Inr (identity_matrix n ! i)"
      "vec_get (identity_matrix n ! i) j = Inr (Finite (if i = j then 1 else 0))"
      using i j by (simp_all add: identity_matrix_def)
    have "?body j (F j) = Inr (add32 (F j) (mul32 (Finite (if i = j then 1 else 0)) (Finite x)))"
      using j len by (simp add: c x)
    also have "add32 (F j) (mul32 (Finite (if i = j then 1 else 0)) (Finite x)) = F (Suc j)"
      using fx x y by (auto simp: F_def less_Suc_eq)
    finally show "?body j (F j) = Inr (F (Suc j))" .
  qed
  then show ?thesis using i by (simp add: F_def)
qed

lemma Mahalanobis_identity_binary32:
  fixes a b :: "binary32 list"
  assumes len: "length a = length b"
    and fin: "\<forall>j<length a. \<exists>x. sub32 (a ! j) (b ! j) = Finite x"
  shows "MahalanobisDivergencePolicy_binary32 (identity_matrix (length a)) a b =
         EuclideanDivergencePolicy_binary32 a b"
proof -
  define n where "n = length a"
  have lens: "length a = n" "length b = n" using len by (simp_all add: n_def)
  have m: "length (identity_matrix n) = n" by (simp add: identity_matrix_def)
  have "for_loop [0..<n]
          (\<lambda>i outsum.
             ebind (for_loop [0..<n]
               (\<lambda>j currval.
                  ebind (vec_get (identity_matrix n) i) (\<lambda>row.
                  ebind (vec_get row j) (\<lambda>c.
                  ebind (vec_get a j) (\<lambda>aj.
                  ebind (vec_get b j) (\<lambda>bj.
                    Inr (add32 currval (mul32 c (sub32 aj bj))))))))
               (Finite 0))
             (\<lambda>currval.
                ebind (vec_get a i) (\<lambda>ai.
                ebind (vec_get b i) (\<lambda>bi.
                  Inr (add32 outsum (mul32 currval (sub32 ai bi)))))))
          (Finite 0) =
        for_loop [0..<n]
          (\<lambda>i outsum.
             ebind (vec_get a i) (\<lambda>ai.
             ebind (vec_get b i) (\<lambda>bi.
               Inr (add32 outsum (mul32 (sub32 ai bi) (sub32 ai bi))))))
          (Finite 0)"
  proof (rule for_loop_cong)
    fix i s assume "i \<in> set [0..<n]"
    then have i: "i < n" by simp
    note row = identity_row[OF lens i fin[folded n_def]]
    show "ebind (for_loop [0..<n]
               (\<lambda>j currval.
                  ebind (vec_get (identity_matrix n) i) (\<lambda>row.
                  ebind (vec_get row j) (\<lambda>c.
                  ebind (vec_get a j) (\<lambda>aj.
                  ebind (vec_get b j) (\<lambda>bj.
                    Inr (add32 currval (mul32 c (sub32 aj bj))))))))
               (Finite 0))
             (\<lambda>currval.
                ebind (vec_get a i) (\<lambda>ai.
                ebind (vec_get b i) (\<lambda>bi.
                  Inr (add32 s (mul32 currval (sub32 ai bi)))))) =
          ebind (vec_get a i) (\<lambda>ai.
             ebind (vec_get b i) (\<lambda>bi.
               Inr (add32 s (mul32 (sub32 ai bi) (sub32 ai bi)))))"
      unfolding row using i lens by simp
  qed
  then show ?thesis
    unfolding MahalanobisDivergencePolicy_binary32_def EuclideanDivergencePolicy_binary32_def
      Let_def n_def[symmetric] m
    by simp
qed

lemma Euclidean_binary32_total:
  fixes a b :: "binary32 list"
  assumes len: "length a = length b"
  shows "\<exists>d. EuclideanDivergencePolicy_binary32 a b = Inr d"
proof -
  have "\<exists>s'. for_loop [0..<length a]
          (\<lambda>i outsum.
             ebind (vec_get a i) (\<lambda>ai.
             ebind (vec_get b i) (\<lambda>bi.
               Inr (add32 outsum (mul32 (sub32 ai bi) (sub32 ai bi))))))
          (Finite 0) = Inr s' \<and> True"
    by (rule for_loop_invariant) (use len in simp_all)
  then show ?thesis
    unfolding EuclideanDivergencePolicy_binary32_def Let_def by auto
qed

text \<open>
  Claim C8, within the range of the floats. For vectors \<open>a\<close> and \<open>b\<close> of equal length of
  which no difference \<open>a[i] - b[i]\<close> is an infinity or NaN, the Mahalanobis policy
  constructed with the identity matrix of that dimension returns what the Euclidean
  policy returns, and both return a value: the products with the entries 0 and 1 of the
  matrix and the sums with 0 are exact.
\<close>

theorem Mahalanobis_identity_is_Euclidean:
  fixes a b :: "binary32 list"
  assumes "length a = length b" and "finite_differences a b"
  shows "MahalanobisDivergencePolicy_binary32 (identity_matrix (length a)) a b =
           EuclideanDivergencePolicy_binary32 a b \<and>
         (\<exists>d. EuclideanDivergencePolicy_binary32 a b = Inr d)"
proof -
  have fin: "\<forall>j<length a. \<exists>x. sub32 (a ! j) (b ! j) = Finite x"
    using assms(2) by (simp add: finite_differences_def is_finite_iff)
  show ?thesis
    using Mahalanobis_identity_binary32[OF assms(1) fin] Euclidean_binary32_total[OF assms(1)]
    by blast
qed

lemma sqrt_25: "sqrt 25 = 5"
  using real_sqrt_abs[of 5] by simp

lemma Euclidean_3_4:
  "EuclideanDivergencePolicy_binary32 [Finite 1, Finite 2] [Finite 4, Finite 6] = Inr (Finite 5)"
  by (simp add: EuclideanDivergencePolicy_binary32_def upt_rec ieee_sub_def sqrt_25)

text \<open>The vectors \<open>[1, 2]\<close> and \<open>[4, 6]\<close> are at distance 5 under both policies.\<close>

theorem Mahalanobis_identity_is_Euclidean_witness:
  "length [Finite 1, Finite 2] = length [Finite 4, Finite 6] \<and>
   finite_differences [Finite 1, Finite 2] [Finite 4, Finite 6] \<and>
   MahalanobisDivergencePolicy_binary32 (identity_matrix 2) [Finite 1, Finite 2] [Finite 4, Finite 6] =
     Inr (Finite 5) \<and>
   EuclideanDivergencePolicy_binary32 [Finite 1, Finite 2] [Finite 4, Finite 6] = Inr (Finite 5)"
proof -
  have h: "length [Finite 1, Finite 2] = length [Finite 4, Finite 6]"
    "finite_differences [Finite 1, Finite 2] [Finite 4, Finite 6]"
    by (auto simp: finite_differences_def ieee_sub_def less_Suc_eq)
  from Mahalanobis_identity_is_Euclidean[OF h] h show ?thesis
    by (simp add: Euclidean_3_4 numeral_2_eq_2)
qed

lemma round32_2_128: "round32 340282366920938463463374607431768211456 = PInf"
  using round32_binade[of 128 340282366920938463463374607431768211456] by simp

text \<open>
  Claim C8 as stated, for every pair of vectors, fails: the difference of \<open>2 ^ 127\<close> and
  \<open>- 2 ^ 127\<close> overflows to an infinity, which the zero entries of the identity matrix
  multiply into NaN. The Mahalanobis policy returns NaN, the Euclidean policy an
  infinity.
\<close>

theorem Mahalanobis_identity_counterexample:
  "MahalanobisDivergencePolicy_binary32 (identity_matrix 2)
      [Finite (2 ^ 127), Finite 0] [Finite (- (2 ^ 127)), Finite 0] = Inr NaN \<and>
   EuclideanDivergencePolicy_binary32 [Finite (2 ^ 127), Finite 0] [Finite (- (2 ^ 127)), Finite 0] =
     Inr PInf"
  by (simp add: MahalanobisDivergencePolicy_binary32_def EuclideanDivergencePolicy_binary32_def
      identity_matrix_def upt_rec ieee_sub_def round32_2_128)

subsection \<open>The correlation policy\<close>

lemma round32_sqrt_2: "round32 (sqrt 2) = Finite (11863283 / 8388608)"
proof -
  have lo: "11863282.5 / 8388608 < sqrt 2"
    by (rule real_less_rsqrt) (simp add: power2_eq_square)
  have hi: "sqrt 2 < 11863283.5 / 8388608"
    by (rule real_less_lsqrt) (simp_all add: power2_eq_square)
  have "1 \<le> sqrt 2" "sqrt 2 < 2" using lo hi by simp_all
  then have b: "2 powi 0 \<le> \<bar>sqrt 2\<bar>" "\<bar>sqrt 2\<bar> < 2 powi (0 + 1)" by simp_all
  have "sqrt 2 * 8388608 - 11863283 < 1 / 2" "- (1 / 2) < sqrt 2 * 8388608 - 11863283"
    using lo hi by (simp_all add: field_simps)
  then have "\<bar>sqrt 2 * 8388608 - of_int 11863283\<bar> < 1 / 2"
    unfolding abs_less_iff by simp
  then have "round_even (sqrt 2 * 8388608) = 11863283" by (rule round_even_near)
  then show ?thesis
    using round32_binade[OF b] by simp
qed

lemma round32_sqrt_2_squared:
  "round32 (140737483538089 / 70368744177664) = Finite (16777215 / 8388608)"
  using round32_binade[of 0 "140737483538089 / 70368744177664"]
  by (simp add: round_even_def)

lemma round64_quotient:
  "round64 (- (8388608 / 16777215)) = Finite (- (281474993487873 / 562949953421312))"
  using round64_binade[of "- 1" "- (8388608 / 16777215)"]
  by (simp add: round_even_def)

lemma round64_sum:
  "round64 (- (16777217 / 562949953421312)) = Finite (- (16777217 / 562949953421312))"
  by (rule round64_dyadic[where n = "- 16777217" and E = "- 49"]) simp_all

lemma round32_result:
  "round32 (- (16777217 / 562949953421312)) = Finite (- (1 / 33554432))"
  using round32_binade[of "- 25" "- (16777217 / 562949953421312)"]
  by (simp add: round_even_def)

text \<open>
  Claim C6 on the program. On the vectors \<open>a = b = [1, 2, 3]\<close>, whose correlation is 1, the
  policy returns \<open>- 2 ^ - 25\<close>, a number below 0: the sums \<open>above\<close>, \<open>below_a\<close> and \<open>below_b\<close>
  are all 2, the product of the two rounded square roots of 2 rounds to \<open>2 - 2 ^ - 23\<close>, and
  \<open>0.5 - 1 / (2 - 2 ^ - 23)\<close> is negative. The value is not in the interval from 0 to 1 into
  which the comment of the program says the expression is squeezed.
\<close>

theorem Correlation_divergence_negative:
  "CorrelationDivergencePolicy_binary32 [Finite 1, Finite 2, Finite 3] [Finite 1, Finite 2, Finite 3] =
     Inr (Finite (- (1 / 33554432)))"
  by (simp add: CorrelationDivergencePolicy_binary32_def upt_rec ieee_sub_def ieee_differs_def
     round32_sqrt_2 round32_sqrt_2_squared round64_quotient round64_sum round32_result)

subsection \<open>The Jensen-Shannon policy\<close>















subsection \<open>The cumulative matrix\<close>

lemma resize_empty: "n \<le> max_size \<Longrightarrow> resize n [] = Inr (replicate n 0)"
  by (simp add: resize_def)

lemma resize_too_long: "max_size < n \<Longrightarrow> resize n v = Inl LengthError"
  by (simp add: resize_def)

lemma accumulate_frame:
  fixes xs :: "float list list"
  assumes i: "i < length xs" and cv: "length cv = D"
  shows "if D \<le> length (xs ! i)
         then for_loop [0..<D]
            (\<lambda>i_element cumulative_vector.
               ebind (vec_get xs i) (\<lambda>frame.
               ebind (vec_get frame i_element) (\<lambda>x.
               ebind (vec_get cumulative_vector i_element) (\<lambda>c.
                 vec_set cumulative_vector i_element (c + x)))))
            cv = Inr (map (\<lambda>e. cv ! e + xs ! i ! e) [0..<D])
         else for_loop [0..<D]
            (\<lambda>i_element cumulative_vector.
               ebind (vec_get xs i) (\<lambda>frame.
               ebind (vec_get frame i_element) (\<lambda>x.
               ebind (vec_get cumulative_vector i_element) (\<lambda>c.
                 vec_set cumulative_vector i_element (c + x)))))
            cv = Inl OutOfRange"
    (is "if _ then for_loop _ ?body _ = _ else _")
proof -
  define I where "I = (\<lambda>k (v :: float list).
     v = map (\<lambda>e. if e < k then cv ! e + xs ! i ! e else cv ! e) [0..<D])"
  have "if (\<forall>e<D. e < length (xs ! i)) then \<exists>s'. for_loop [0..<D] ?body cv = Inr s' \<and> I D s'
        else \<exists>err. for_loop [0..<D] ?body cv = Inl err \<and> err = OutOfRange"
  proof (rule for_loop_failure)
    show "I 0 cv" using cv by (simp add: I_def list_eq_iff_nth_eq)
  next
    fix e v assume e: "e < D" and inv: "I e v"
    have v: "length v = D" "v ! e = cv ! e" using inv e by (simp_all add: I_def)
    show "if e < length (xs ! i) then \<exists>s'. ?body e v = Inr s' \<and> I (Suc e) s'
          else \<exists>err. ?body e v = Inl err \<and> err = OutOfRange"
    proof (cases "e < length (xs ! i)")
      case True
      have "?body e v = Inr (v[e := cv ! e + xs ! i ! e])"
        using True i e v by (simp add: add.commute)
      moreover have "I (Suc e) (v[e := cv ! e + xs ! i ! e])"
        using inv e unfolding I_def by (auto simp: list_eq_iff_nth_eq nth_list_update less_Suc_eq)
      ultimately show ?thesis using True by simp
    next
      case False
      then show ?thesis using i by (simp add: vec_get_def)
    qed
  qed
  moreover have "(\<forall>e<D. e < length (xs ! i)) = (D \<le> length (xs ! i))"
    by (metis less_le_trans not_less order_refl)
  ultimately show ?thesis
    by (auto simp: I_def split: if_splits)
qed

lemma frames_wide_nth: "frames_wide xs D = (\<forall>i<length xs. D \<le> length (xs ! i))"
  unfolding frames_wide_def by (metis in_set_conv_nth)

lemma prefix_sums_Suc:
  "map (\<lambda>e. prefix_sums xs D k ! e + xs ! k ! e) [0..<D] = prefix_sums xs D (Suc k)"
  by (simp add: prefix_sums_def add.commute)

lemma calculate_cumulative_cases:
  fixes xs :: "float list list"
  assumes T: "m_num_dim sc \<le> max_size"
  shows "if frames_wide xs D
         then calculate_cumulative sc xs D =
                Inr (prefix_sums xs D (length xs), map (prefix_sums xs D) [0..<Suc (length xs)],
                     replicate (length xs) (replicate (m_num_dim sc) 0))
         else calculate_cumulative sc xs D = Inl OutOfRange"
proof -
  define N where "N = length xs"
  define T where "T = m_num_dim sc"
  let ?inner = "\<lambda>i_frame. (\<lambda>i_element cumulative_vector.
               ebind (vec_get xs i_frame) (\<lambda>frame.
               ebind (vec_get frame i_element) (\<lambda>x.
               ebind (vec_get cumulative_vector i_element) (\<lambda>c.
                 vec_set cumulative_vector i_element (c + x)))))"
  let ?body = "\<lambda>i_frame (cumulative_vector, cumulative_matrix, change_matrix).
          ebind (for_loop [0..<D] (?inner i_frame) cumulative_vector)
          (\<lambda>cumulative_vector.
             ebind (vec_get change_matrix i_frame) (\<lambda>out.
             ebind (resize T out) (\<lambda>out.
             ebind (vec_set change_matrix i_frame out) (\<lambda>change_matrix.
               Inr (cumulative_vector, cumulative_matrix @ [cumulative_vector], change_matrix)))))"
  define St where "St = (\<lambda>k. (prefix_sums xs D k, map (prefix_sums xs D) [0..<Suc k],
      map (\<lambda>j. if j < k then replicate T (0::float) else []) [0..<N]))"
  define I where "I = (\<lambda>k s. s = St k)"
  have "if (\<forall>i<N. D \<le> length (xs ! i))
        then \<exists>s'. for_loop [0..<N] ?body (St 0) = Inr s' \<and> I N s'
        else \<exists>err. for_loop [0..<N] ?body (St 0) = Inl err \<and> err = OutOfRange"
  proof (rule for_loop_failure)
    show "I 0 (St 0)" by (simp add: I_def)
  next
    fix i s assume i: "i < N" and inv: "I i s"
    then have s: "s = St i" by (simp add: I_def)
    have ix: "i < length xs" using i by (simp add: N_def)
    have len: "length (prefix_sums xs D i) = D" by (simp add: prefix_sums_def)
    note acc = accumulate_frame[OF ix len]
    show "if D \<le> length (xs ! i) then \<exists>s'. ?body i s = Inr s' \<and> I (Suc i) s'
          else \<exists>err. ?body i s = Inl err \<and> err = OutOfRange"
    proof (cases "D \<le> length (xs ! i)")
      case True
      with acc have run: "for_loop [0..<D] (?inner i) (prefix_sums xs D i) = Inr (prefix_sums xs D (Suc i))"
        by (simp add: prefix_sums_Suc)
      let ?chg = "map (\<lambda>j. if j < i then replicate T (0::float) else []) [0..<N]"
      have g: "vec_get ?chg i = Inr []" using i by simp
      have r: "resize T [] = Inr (replicate T 0)"
        using T by (simp add: resize_empty T_def)
      have u: "vec_set ?chg i (replicate T 0) =
                 Inr (map (\<lambda>j. if j < Suc i then replicate T (0::float) else []) [0..<N])"
        using i by (auto simp: list_eq_iff_nth_eq nth_list_update less_Suc_eq)
      have "?body i s = Inr (St (Suc i))"
        unfolding s St_def by (simp only: prod.case run g r u ebind_Inr) simp
      then show ?thesis using True by (simp add: I_def)
    next
      case False
      with acc have "for_loop [0..<D] (?inner i) (prefix_sums xs D i) = Inl OutOfRange"
        by simp
      then have "?body i s = Inl OutOfRange"
        unfolding s St_def by (simp only: prod.case ebind_Inl)
      then show ?thesis using False by simp
    qed
  qed
  moreover have "St 0 = (replicate D 0, [replicate D 0], replicate N [])"
    by (simp add: St_def prefix_sums_def list_eq_iff_nth_eq)
  moreover have "St N = (prefix_sums xs D N, map (prefix_sums xs D) [0..<Suc N], replicate N (replicate T 0))"
    by (simp add: St_def list_eq_iff_nth_eq del: upt_Suc)
  ultimately show ?thesis
    unfolding calculate_cumulative_def frames_wide_nth N_def[symmetric] T_def[symmetric] I_def
    by (auto split: if_splits)
qed

lemma upt_from_0: "0 < n \<Longrightarrow> [0..<n] = 0 # [1..<n]"
  by (simp add: upt_rec)

lemma calculate_cumulative_too_long:
  fixes xs :: "float list list"
  assumes T: "max_size < m_num_dim sc" and ne: "xs \<noteq> []" and D: "D \<le> length (hd xs)"
  shows "calculate_cumulative sc xs D = Inl LengthError"
proof -
  have N: "0 < length xs" "0 < length (replicate (length xs) ([] :: float list))"
    using ne by simp_all
  have D0: "D \<le> length (xs ! 0)" using D ne by (simp add: hd_conv_nth)
  have inner: "for_loop [0..<D]
            (\<lambda>i_element cumulative_vector.
               ebind (vec_get xs 0) (\<lambda>frame.
               ebind (vec_get frame i_element) (\<lambda>x.
               ebind (vec_get cumulative_vector i_element) (\<lambda>c.
                 vec_set cumulative_vector i_element (c + x)))))
            (replicate D 0) = Inr (map (\<lambda>e. replicate D 0 ! e + xs ! 0 ! e) [0..<D])"
    using accumulate_frame[OF N(1), of "replicate D 0" D] D0 by simp
  have g: "vec_get (replicate (length xs) ([] :: float list)) 0 = Inr []"
    using N by (simp add: vec_get_def)
  show ?thesis
    unfolding calculate_cumulative_def upt_from_0[OF N(1)] for_loop.simps
    by (simp only: prod.case inner ebind_Inr g resize_too_long[OF T] ebind_Inl sum.case)
qed

lemma running_sums_Suc:
  "running_sums xs D (Suc k) = map (\<lambda>e. add32 (running_sums xs D k ! e) (xs ! k ! e)) [0..<D]"
  by (simp add: running_sums_def)

lemma length_running_sums [simp]: "length (running_sums xs D k) = D"
  by (simp add: running_sums_def)

lemma accumulate_frame_binary32:
  fixes xs :: "binary32 list list"
  assumes i: "i < length xs" and cv: "length cv = D" and wide: "D \<le> length (xs ! i)"
  shows "for_loop [0..<D]
            (\<lambda>i_element cumulative_vector.
               ebind (vec_get xs i) (\<lambda>frame.
               ebind (vec_get frame i_element) (\<lambda>x.
               ebind (vec_get cumulative_vector i_element) (\<lambda>c.
                 vec_set cumulative_vector i_element (add32 c x)))))
            cv = Inr (map (\<lambda>e. add32 (cv ! e) (xs ! i ! e)) [0..<D])"
    (is "for_loop _ ?body _ = _")
proof -
  define F where "F = (\<lambda>k. map (\<lambda>e. if e < k then add32 (cv ! e) (xs ! i ! e) else cv ! e) [0..<D])"
  have "for_loop [0..<D] ?body (F 0) = Inr (F D)"
  proof (rule for_loop_closed)
    fix e assume e: "e < D"
    have "?body e (F e) = Inr ((F e)[e := add32 (cv ! e) (xs ! i ! e)])"
      using e i wide by (simp add: F_def)
    moreover have "(F e)[e := add32 (cv ! e) (xs ! i ! e)] = F (Suc e)"
      using e by (auto simp: F_def list_eq_iff_nth_eq nth_list_update less_Suc_eq)
    ultimately show "?body e (F e) = Inr (F (Suc e))" by simp
  qed
  moreover have "F 0 = cv" using cv by (simp add: F_def list_eq_iff_nth_eq)
  moreover have "F D = map (\<lambda>e. add32 (cv ! e) (xs ! i ! e)) [0..<D]" by (simp add: F_def)
  ultimately show ?thesis by simp
qed

lemma calculate_cumulative_binary32_run:
  fixes xs :: "binary32 list list"
  assumes wide: "list_all (\<lambda>f. D \<le> length f) xs" and T: "m_num_dim sc \<le> max_size"
  shows "calculate_cumulative_binary32 sc xs D =
           Inr (running_sums xs D (length xs), map (running_sums xs D) [0..<Suc (length xs)],
                replicate (length xs) (replicate (m_num_dim sc) 0))"
proof -
  define N where "N = length xs"
  define T where "T = m_num_dim sc"
  let ?inner = "\<lambda>i_frame. (\<lambda>i_element cumulative_vector.
               ebind (vec_get xs i_frame) (\<lambda>frame.
               ebind (vec_get frame i_element) (\<lambda>x.
               ebind (vec_get cumulative_vector i_element) (\<lambda>c.
                 vec_set cumulative_vector i_element (add32 c x)))))"
  let ?body = "\<lambda>i_frame (cumulative_vector, cumulative_matrix, change_matrix).
          ebind (for_loop [0..<D] (?inner i_frame) cumulative_vector)
          (\<lambda>cumulative_vector.
             ebind (vec_get change_matrix i_frame) (\<lambda>out.
             ebind (resize T out) (\<lambda>out.
             ebind (vec_set change_matrix i_frame out) (\<lambda>change_matrix.
               Inr (cumulative_vector, cumulative_matrix @ [cumulative_vector], change_matrix)))))"
  define St where "St = (\<lambda>k. (running_sums xs D k, map (running_sums xs D) [0..<Suc k],
      map (\<lambda>j. if j < k then replicate T (0::ieee) else []) [0..<N]))"
  have "for_loop [0..<N] ?body (St 0) = Inr (St N)"
  proof (rule for_loop_closed)
    fix i assume i: "i < N"
    have ix: "i < length xs" using i by (simp add: N_def)
    have w: "D \<le> length (xs ! i)" using wide ix by (simp add: list_all_length)
    have run: "for_loop [0..<D] (?inner i) (running_sums xs D i) = Inr (running_sums xs D (Suc i))"
      using accumulate_frame_binary32[OF ix _ w, of "running_sums xs D i"]
      by (simp add: running_sums_Suc)
    let ?chg = "map (\<lambda>j. if j < i then replicate T (0::ieee) else []) [0..<N]"
    have g: "vec_get ?chg i = Inr []" using i by simp
    have r: "resize T ([] :: ieee list) = Inr (replicate T 0)"
      using T by (simp add: resize_empty T_def)
    have u: "vec_set ?chg i (replicate T 0) =
               Inr (map (\<lambda>j. if j < Suc i then replicate T (0::ieee) else []) [0..<N])"
      using i by (auto simp: list_eq_iff_nth_eq nth_list_update less_Suc_eq)
    show "?body i (St i) = Inr (St (Suc i))"
      unfolding St_def by (simp only: prod.case run g r u ebind_Inr) simp
  qed
  moreover have "St 0 = (replicate D 0, [replicate D 0], replicate N [])"
    by (simp add: St_def running_sums_def list_eq_iff_nth_eq)
  moreover have "St N = (running_sums xs D N, map (running_sums xs D) [0..<Suc N], replicate N (replicate T 0))"
    by (simp add: St_def list_eq_iff_nth_eq del: upt_Suc)
  ultimately show ?thesis
    unfolding calculate_cumulative_binary32_def N_def[symmetric] T_def[symmetric] by simp
qed

lemma running_sums_exact:
  assumes ex: "exact_sums xs D" and k: "k \<le> length xs" and e: "e < D"
  shows "running_sums xs D k ! e = Finite (\<Sum>f<k. value_of (xs ! f ! e))"
  using k
proof (induction k)
  case 0
  then show ?case using e by (simp add: running_sums_def zero_ieee_def)
next
  case (Suc k)
  then have IH: "running_sums xs D k ! e = Finite (\<Sum>f<k. value_of (xs ! f ! e))" by simp
  have "is_finite (xs ! k ! e)" using ex Suc.prems e by (simp add: exact_sums_def)
  then obtain x where x: "xs ! k ! e = Finite x" by (cases "xs ! k ! e") auto
  have r: "round32 (\<Sum>f<Suc k. value_of (xs ! f ! e)) = Finite (\<Sum>f<Suc k. value_of (xs ! f ! e))"
    using ex Suc.prems e unfolding exact_sums_def by blast
  show ?case
    using e r by (simp add: running_sums_Suc IH x)
qed

subsection \<open>One timescale\<close>

lemma frame_status_cases:
  assumes "0 < w"
  shows "frame_status N w i = 0 \<longleftrightarrow> w \<le> i \<and> i + w \<le> N"
    and "frame_status N w i = - 1 \<longleftrightarrow> i < w \<and> i + w \<le> N"
    and "frame_status N w i = - 2 \<longleftrightarrow> w \<le> i \<and> N < i + w"
    and "frame_status N w i = - 3 \<longleftrightarrow> i < w \<and> N < i + w"
  using assms by (auto simp: frame_status_def status_of_def min_def)

lemma final_value_replaced: "final_value d N w i = replaced (mean_div_of (map d (normal_frames N w))) (raw_value d N w i)"
  by (simp add: final_value_def raw_value_def replaced_def Let_def LEFT_def RIGHT_def)

lemma sum_prefix_diff:
  fixes g :: "nat \<Rightarrow> real"
  assumes "j \<le> k"
  shows "(\<Sum>f<k. g f) - (\<Sum>f<j. g f) = (\<Sum>f = j..<k. g f)"
  using sum_diff_nat_ivl[of 0 j k g] assms by (simp add: lessThan_atLeast0)

lemma mat_get_in:
  "i < length m \<Longrightarrow> t < length (m ! i) \<Longrightarrow> mat_get m i t = Inr (m ! i ! t)"
  by (simp add: mat_get_def)

lemma mat_set_in:
  "i < length m \<Longrightarrow> t < length (m ! i) \<Longrightarrow> mat_set m i t x = Inr (m[i := (m ! i)[t := x]])"
  by (simp add: mat_set_def)

lemma window_means_normal:
  fixes xs :: "float list list"
  assumes N: "N < 2 ^ 31" and w: "0 < w" and normal: "w \<le> i" "i + w \<le> N"
    and cm: "cm = map (prefix_sums xs D) [0..<Suc N]"
    and lens: "length mL = D" "length mR = D"
  shows "window_means cm (boundary_of N w i) D (mL, mR) =
           Inr (window_mean xs D (i - w) i, window_mean xs D i (i + w))"
proof -
  let ?wb = "boundary_of N w i"
  have i: "i < N" using w normal by simp
  have wbs: "vec_get ?wb 0 = Inr (int (i - w))" "vec_get ?wb 1 = Inr (int i)"
    "vec_get ?wb 2 = Inr (int i)" "vec_get ?wb 3 = Inr (int (i + w))"
    using normal by (simp_all add: vec_get_def boundary_of_def min_def)
  have cnt: "int_checked (int i - int (i - w)) = Inr (int w)"
    using normal i N by (simp add: int_checked_def)
  have idx: "size_t_of_int (int (i - w)) = i - w" "size_t_of_int (int i) = i"
    "size_t_of_int (int (i + w)) = i + w"
    using i N normal by (simp_all add: size_t_of_int_small)
  have rows: "mat_get cm (i - w) e = Inr (\<Sum>f<i - w. xs ! f ! e)"
    "mat_get cm i e = Inr (\<Sum>f<i. xs ! f ! e)"
    "mat_get cm (i + w) e = Inr (\<Sum>f<i + w. xs ! f ! e)" if "e < D" for e
    using that i normal unfolding cm
    by (simp_all add: mat_get_in prefix_sums_def del: upt_Suc)
  define L where "L = (\<lambda>e. ((\<Sum>f<i. xs ! f ! e) - (\<Sum>f<i - w. xs ! f ! e)) / real w)"
  define R where "R = (\<lambda>e. ((\<Sum>f<i + w. xs ! f ! e) - (\<Sum>f<i. xs ! f ! e)) / real w)"
  define F where "F = (\<lambda>k. (map (\<lambda>e. if e < k then L e else mL ! e) [0..<D],
                           map (\<lambda>e. if e < k then R e else mR ! e) [0..<D]))"
  let ?body = "(\<lambda>i_element (mean_L, mean_R).
            ebind (mat_get cm (size_t_of_int (int i)) i_element) (\<lambda>c1.
            ebind (mat_get cm (size_t_of_int (int (i - w))) i_element) (\<lambda>c0.
            ebind (fdiv (c1 - c0) (real_of_int (int w))) (\<lambda>l.
            ebind (vec_set mean_L i_element l) (\<lambda>mean_L.
            ebind (mat_get cm (size_t_of_int (int (i + w))) i_element) (\<lambda>c3.
            ebind (mat_get cm (size_t_of_int (int i)) i_element) (\<lambda>c2.
            ebind (fdiv (c3 - c2) (real_of_int (int w))) (\<lambda>r.
            ebind (vec_set mean_R i_element r) (\<lambda>mean_R.
              Inr (mean_L, mean_R))))))))))"
  have loop: "for_loop [0..<D] ?body (F 0) = Inr (F D)"
  proof (rule for_loop_closed)
    fix e assume e: "e < D"
    have dv: "fdiv x (real_of_int (int w)) = Inr (x / real w)" for x
      using w by simp
    have upd: "vec_set (fst (F e)) e (L e) = Inr (fst (F (Suc e)))"
      "vec_set (snd (F e)) e (R e) = Inr (snd (F (Suc e)))"
      using e by (auto simp: F_def list_eq_iff_nth_eq nth_list_update less_Suc_eq)
    have "?body e (fst (F e), snd (F e)) = Inr (fst (F (Suc e)), snd (F (Suc e)))"
      by (simp only: prod.case idx rows[OF e] dv ebind_Inr upd[unfolded L_def R_def])
    then show "?body e (F e) = Inr (F (Suc e))" by simp
  qed
  have F0: "F 0 = (mL, mR)"
    using lens by (simp add: F_def list_eq_iff_nth_eq)
  have "L e = (\<Sum>f = i - w..<i. xs ! f ! e) / real (i - (i - w))" for e
    using normal by (simp add: L_def sum_prefix_diff)
  moreover have "R e = (\<Sum>f = i..<i + w. xs ! f ! e) / real (i + w - i)" for e
    by (simp add: R_def sum_prefix_diff)
  ultimately have FD: "F D = (window_mean xs D (i - w) i, window_mean xs D i (i + w))"
    by (simp add: F_def window_mean_def)
  show ?thesis
    unfolding window_means_def
    by (simp only: wbs cnt ebind_Inr loop[unfolded F0 FD])
qed

lemma length_window_mean [simp]: "length (window_mean xs D j k) = D"
  by (simp add: window_mean_def)

lemma calculate_frame_loop:
  fixes xs :: "float list list" and divergence :: DivergencePolicy
  assumes N: "N < 2 ^ 31" and w: "0 < w"
    and wbs: "t < length wbs" "wbs ! t = map (boundary_of N w) [0..<N]"
    and cm: "cm = map (prefix_sums xs D) [0..<Suc N]"
    and shape: "length chg = N" "\<forall>i<N. t < length (chg ! i)"
    and lens: "length mL = D" "length mR = D"
    and d: "d = (\<lambda>i. projr (frame_divergence divergence xs D w i))"
  shows "if (\<forall>i<N. frame_status N w i = 0 \<longrightarrow> (\<exists>v. frame_divergence divergence xs D w i = Inr v))
         then \<exists>mL' mR'. length mL' = D \<and> length mR' = D \<and>
           for_loop [0..<N] (calculate_frame divergence cm wbs D t) (chg, mL, mR, 0, 0) =
             Inr (map (\<lambda>j. (chg ! j)[t := raw_value d N w j]) [0..<N], mL', mR',
                  sum_list (map d (normal_frames N w)), int (length (normal_frames N w)))
         else \<exists>err. for_loop [0..<N] (calculate_frame divergence cm wbs D t) (chg, mL, mR, 0, 0) = Inl err"
proof -
  define normal where "normal = (\<lambda>i. frame_status N w i = 0)"
  define ok where "ok = (\<lambda>i. normal i \<longrightarrow> (\<exists>v. frame_divergence divergence xs D w i = Inr v))"
  define C where "C = (\<lambda>k. map (\<lambda>j. if j < k then (chg ! j)[t := raw_value d N w j] else chg ! j) [0..<N])"
  define I where "I = (\<lambda>k (c, l :: float list, r :: float list, md, cnt).
     length l = D \<and> length r = D \<and> c = C k \<and>
     md = sum_list (map d (filter normal [0..<k])) \<and>
     cnt = int (length (filter normal [0..<k])))"
  let ?body = "calculate_frame divergence cm wbs D t"
  have main: "if (\<forall>i<N. ok i) then \<exists>s'. for_loop [0..<N] ?body (chg, mL, mR, 0, 0) = Inr s' \<and> I N s'
        else \<exists>err. for_loop [0..<N] ?body (chg, mL, mR, 0, 0) = Inl err"
  proof (rule for_loop_cases)
    show "I 0 (chg, mL, mR, 0, 0)"
      using lens shape by (simp add: I_def C_def list_eq_iff_nth_eq)
  next
    fix i s assume i: "i < N" and inv: "I i s"
    obtain c l r md cnt where s: "s = (c, l, r, md, cnt)" by (cases s) auto
    have st: "length l = D" "length r = D" "c = C i"
      "md = sum_list (map d (filter normal [0..<i]))" "cnt = int (length (filter normal [0..<i]))"
      using inv unfolding s I_def by auto
    have cnt_le: "cnt \<le> int i"
      unfolding st using length_filter_le[of normal "[0..<i]"] by simp
    have reads: "vec_get wbs t = Inr (wbs ! t)" "vec_get (wbs ! t) i = Inr (boundary_of N w i)"
      "vec_get (boundary_of N w i) 4 = Inr (frame_status N w i)"
      using wbs i by (simp_all add: vec_get_def boundary_of_def frame_status_def)
    have ci: "i < length c" "t < length (c ! i)" "c ! i = chg ! i"
      using i shape by (simp_all add: st C_def)
    have upd: "c[i := (c ! i)[t := raw_value d N w i]] = C (Suc i)"
      using i unfolding st C_def
      by (auto simp: list_eq_iff_nth_eq nth_list_update less_Suc_eq)
    have put: "mat_set c i t x = Inr (c[i := (c ! i)[t := x]])" for x
      using ci by (simp add: mat_set_in)
    have got: "mat_get (c[i := (c ! i)[t := x]]) i t = Inr x" for x
      using ci by (simp add: mat_get_in)
    show "if ok i then \<exists>s'. ?body i s = Inr s' \<and> I (Suc i) s' else \<exists>err. ?body i s = Inl err"
    proof (cases "normal i")
      case True
      then have fs: "frame_status N w i = 0" by (simp add: normal_def)
      then have nf: "w \<le> i" "i + w \<le> N" using frame_status_cases(1)[OF w] by auto
      have wm: "window_means cm (boundary_of N w i) D (l, r) =
           Inr (window_mean xs D (i - w) i, window_mean xs D i (i + w))"
        using N w nf cm st(1,2) by (rule window_means_normal)
      have raw: "raw_value d N w i = d i" by (simp add: raw_value_def fs)
      have inc: "int_checked (cnt + 1) = Inr (cnt + 1)"
        using cnt_le i N by (simp add: int_checked_def st)
      show ?thesis
      proof (cases "\<exists>v. frame_divergence divergence xs D w i = Inr v")
        case ex: True
        then obtain v where v: "frame_divergence divergence xs D w i = Inr v" ..
        then have dv: "divergence (window_mean xs D (i - w) i) (window_mean xs D i (i + w)) = Inr v"
          and di: "d i = v"
          by (simp_all add: frame_divergence_def d)
        define s' where "s' = (C (Suc i), window_mean xs D (i - w) i, window_mean xs D i (i + w), md + v, cnt + 1)"
        have "?body i s = Inr s'"
          unfolding s calculate_frame_def s'_def upd[symmetric] raw di
          by (simp only: prod.case reads ebind_Inr fs wm dv put got inc) simp
        moreover have "I (Suc i) s'"
          unfolding s'_def I_def using True di by (simp add: st)
        ultimately show ?thesis using ex by (auto simp: ok_def)
      next
        case nex: False
        then obtain err where "frame_divergence divergence xs D w i = Inl err"
          by (cases "frame_divergence divergence xs D w i") auto
        then have dv: "divergence (window_mean xs D (i - w) i) (window_mean xs D i (i + w)) = Inl err"
          by (simp add: frame_divergence_def)
        have "?body i s = Inl err"
          unfolding s calculate_frame_def
          by (simp only: prod.case reads ebind_Inr fs wm dv ebind_Inl) simp
        then show ?thesis using nex True by (auto simp: ok_def)
      qed
    next
      case False
      then have fs: "frame_status N w i \<noteq> 0" by (simp add: normal_def)
      have oki: "ok i" using False by (simp add: ok_def)
      define x where "x = raw_value d N w i"
      define s' where "s' = (C (Suc i), l, r, md, cnt)"
      have x: "x = (if frame_status N w i = - 1 then LEFT
                    else if frame_status N w i = - 2 then RIGHT else 0)"
        using fs by (simp add: x_def raw_value_def)
      have "?body i s = Inr s'"
        unfolding s calculate_frame_def s'_def upd[symmetric] x_def[symmetric] x
        using fs by (simp only: prod.case reads ebind_Inr if_False put) auto
      moreover have "I (Suc i) s'"
        unfolding s'_def I_def using False by (simp add: st)
      ultimately show ?thesis using oki by auto
    qed
  qed
  have CN: "C N = map (\<lambda>j. (chg ! j)[t := raw_value d N w j]) [0..<N]"
    by (simp add: C_def)
  show ?thesis
  proof (cases "\<forall>i<N. ok i")
    case True
    with main obtain s' where s': "for_loop [0..<N] ?body (chg, mL, mR, 0, 0) = Inr s'" "I N s'"
      by auto
    obtain c l r md cnt where "s' = (c, l, r, md, cnt)" by (cases s') auto
    with s' have "length l = D \<and> length r = D \<and>
       for_loop [0..<N] ?body (chg, mL, mR, 0, 0) =
         Inr (map (\<lambda>j. (chg ! j)[t := raw_value d N w j]) [0..<N], l, r,
              sum_list (map d (normal_frames N w)), int (length (normal_frames N w)))"
      unfolding I_def CN normal_frames_def normal_def by simp
    then show ?thesis using True unfolding ok_def normal_def by auto
  next
    case False
    with main obtain err where "for_loop [0..<N] ?body (chg, mL, mR, 0, 0) = Inl err" by auto
    then show ?thesis using False unfolding ok_def normal_def by auto
  qed
qed

lemma calculate_replace_loop:
  fixes c :: "float list list"
  assumes shape: "length c = N" "\<forall>i<N. t < length (c ! i)"
  shows "for_loop [0..<N] (calculate_replace md t) c =
           Inr (map (\<lambda>j. (c ! j)[t := replaced md (c ! j ! t)]) [0..<N])"
proof -
  define F where "F = (\<lambda>k. map (\<lambda>j. if j < k then (c ! j)[t := replaced md (c ! j ! t)] else c ! j) [0..<N])"
  have "for_loop [0..<N] (calculate_replace md t) (F 0) = Inr (F N)"
  proof (rule for_loop_closed)
    fix i assume i: "i < N"
    have Fi: "i < length (F i)" "F i ! i = c ! i" "t < length (c ! i)"
      using i shape by (simp_all add: F_def)
    have got: "mat_get (F i) i t = Inr (c ! i ! t)"
      using Fi by (simp add: mat_get_in)
    have put: "mat_set (F i) i t x = Inr ((F i)[i := (c ! i)[t := x]])" for x
      using Fi by (simp add: mat_set_in)
    have next_state: "(F i)[i := (c ! i)[t := replaced md (c ! i ! t)]] = F (Suc i)"
      using i by (auto simp: F_def list_eq_iff_nth_eq nth_list_update less_Suc_eq)
    have same: "replaced md (c ! i ! t) = c ! i ! t \<Longrightarrow> F i = F (Suc i)"
      using next_state Fi by (metis list_update_id)
    consider (R) "c ! i ! t = RIGHT" | (L) "c ! i ! t \<noteq> RIGHT" "c ! i ! t = LEFT"
      | (O) "c ! i ! t \<noteq> RIGHT" "c ! i ! t \<noteq> LEFT" by blast
    then show "calculate_replace md t i (F i) = Inr (F (Suc i))"
    proof cases
      case R
      then have "replaced md (c ! i ! t) = 3 * md" by (simp add: replaced_def)
      with next_state R show ?thesis
        unfolding calculate_replace_def by (simp add: got put)
    next
      case L
      then have "replaced md (c ! i ! t) = (- 1) * md" by (simp add: replaced_def)
      with next_state L show ?thesis
        unfolding calculate_replace_def by (simp add: got put)
    next
      case O
      then have r: "replaced md (c ! i ! t) = c ! i ! t" by (simp add: replaced_def)
      have run: "calculate_replace md t i (F i) = Inr (F i)"
        unfolding calculate_replace_def using O by (simp add: got)
      show ?thesis
        unfolding same[OF r, symmetric] by (rule run)
    qed
  qed
  moreover have "F 0 = c" using shape by (simp add: F_def list_eq_iff_nth_eq)
  moreover have "F N = map (\<lambda>j. (c ! j)[t := replaced md (c ! j ! t)]) [0..<N]"
    by (simp add: F_def)
  ultimately show ?thesis by simp
qed

lemma calculate_timescale_cases:
  fixes xs :: "float list list" and divergence :: DivergencePolicy
  assumes N: "N < 2 ^ 31" and w: "0 < w"
    and wbs: "t < length wbs" "wbs ! t = map (boundary_of N w) [0..<N]"
    and cm: "cm = map (prefix_sums xs D) [0..<Suc N]"
    and shape: "length chg = N" "\<forall>i<N. t < length (chg ! i)"
    and lens: "length mL = D" "length mR = D"
    and d: "d = (\<lambda>i. projr (frame_divergence divergence xs D w i))"
  shows "if (\<forall>i<N. frame_status N w i = 0 \<longrightarrow> (\<exists>v. frame_divergence divergence xs D w i = Inr v))
         then \<exists>mL' mR'. length mL' = D \<and> length mR' = D \<and>
           calculate_timescale divergence cm wbs N D t (chg, mL, mR) =
             Inr (map (\<lambda>j. (chg ! j)[t := final_value d N w j]) [0..<N], mL', mR')
         else \<exists>err. calculate_timescale divergence cm wbs N D t (chg, mL, mR) = Inl err"
proof -
  note loopA = calculate_frame_loop[OF N w wbs cm shape lens d]
  have rd: "vec_get wbs t = Inr (wbs ! t)" "length (wbs ! t) = N"
    using wbs by simp_all
  show ?thesis
  proof (cases "\<forall>i<N. frame_status N w i = 0 \<longrightarrow> (\<exists>v. frame_divergence divergence xs D w i = Inr v)")
    case True
    with loopA obtain mL' mR' where l: "length mL' = D" "length mR' = D"
      and A: "for_loop [0..<N] (calculate_frame divergence cm wbs D t) (chg, mL, mR, 0, 0) =
             Inr (map (\<lambda>j. (chg ! j)[t := raw_value d N w j]) [0..<N], mL', mR',
                  sum_list (map d (normal_frames N w)), int (length (normal_frames N w)))"
      by auto
    define md where "md = mean_div_of (map d (normal_frames N w))"
    let ?cA = "map (\<lambda>j. (chg ! j)[t := raw_value d N w j]) [0..<N]"
    have shapeA: "length ?cA = N" "\<forall>i<N. t < length (?cA ! i)"
      using shape by simp_all
    have B: "for_loop [0..<N] (calculate_replace md t) ?cA =
           Inr (map (\<lambda>j. (?cA ! j)[t := replaced md (?cA ! j ! t)]) [0..<N])"
      using shapeA by (rule calculate_replace_loop)
    have fin: "map (\<lambda>j. (?cA ! j)[t := replaced md (?cA ! j ! t)]) [0..<N] =
               map (\<lambda>j. (chg ! j)[t := final_value d N w j]) [0..<N]"
      using shape by (simp add: final_value_replaced md_def)
    have mdeq: "(if int (length (normal_frames N w)) > 0
                 then sum_list (map d (normal_frames N w)) / real_of_int (int (length (normal_frames N w)))
                 else sum_list (map d (normal_frames N w))) = md"
      by (cases "normal_frames N w") (simp_all add: md_def mean_div_of_def)
    have "calculate_timescale divergence cm wbs N D t (chg, mL, mR) =
             Inr (map (\<lambda>j. (chg ! j)[t := final_value d N w j]) [0..<N], mL', mR')"
      unfolding calculate_timescale_def
      by (simp only: prod.case rd ebind_Inr A Let_def mdeq B fin)
    then show ?thesis using True l by auto
  next
    case False
    with loopA obtain err where
      "for_loop [0..<N] (calculate_frame divergence cm wbs D t) (chg, mL, mR, 0, 0) = Inl err"
      by auto
    then have "calculate_timescale divergence cm wbs N D t (chg, mL, mR) = Inl err"
      unfolding calculate_timescale_def
      by (simp only: prod.case rd ebind_Inr ebind_Inl)
    then show ?thesis using False by auto
  qed
qed

subsection \<open>The whole calculation\<close>

lemma timescales_loop:
  fixes xs :: "float list list" and divergence :: DivergencePolicy
  assumes N: "N = length xs" "N < 2 ^ 31" and D: "D = length (hd xs)"
    and wbs: "wbs = map (\<lambda>t. map (boundary_of N (2 ^ t)) [0..<N]) [0..<T]"
    and cm: "cm = map (prefix_sums xs D) [0..<Suc N]"
  shows "if divergences_defined divergence xs T
         then \<exists>mL mR. for_loop [0..<T] (calculate_timescale divergence cm wbs N D)
                  (replicate N (replicate T 0), replicate D 0, replicate D 0) =
                Inr (expected_output divergence xs T, mL, mR)
         else \<exists>err. for_loop [0..<T] (calculate_timescale divergence cm wbs N D)
                  (replicate N (replicate T 0), replicate D 0, replicate D 0) = Inl err"
proof -
  define d where "d = (\<lambda>t i. projr (frame_divergence divergence xs D (2 ^ t) i))"
  define ok where "ok = (\<lambda>t. \<forall>i<N. frame_status N (2 ^ t) i = 0 \<longrightarrow>
        (\<exists>v. frame_divergence divergence xs D (2 ^ t) i = Inr v))"
  define C where "C = (\<lambda>k. map (\<lambda>j. map (\<lambda>t. if t < k then final_value (d t) N (2 ^ t) j else 0) [0..<T]) [0..<N])"
  define I where "I = (\<lambda>k (c, l :: float list, r :: float list). length l = D \<and> length r = D \<and> c = C k)"
  let ?body = "calculate_timescale divergence cm wbs N D"
  let ?s0 = "(replicate N (replicate T (0::float)), replicate D (0::float), replicate D (0::float))"
  have main: "if (\<forall>t<T. ok t) then \<exists>s'. for_loop [0..<T] ?body ?s0 = Inr s' \<and> I T s'
        else \<exists>err. for_loop [0..<T] ?body ?s0 = Inl err"
  proof (rule for_loop_cases)
    show "I 0 ?s0" by (simp add: I_def C_def list_eq_iff_nth_eq)
  next
    fix t s assume t: "t < T" and inv: "I t s"
    obtain c l r where s: "s = (c, l, r)" by (cases s) auto
    have st: "length l = D" "length r = D" "c = C t" using inv unfolding s I_def by auto
    have w: "(0::nat) < 2 ^ t" by simp
    have wt: "t < length wbs" "wbs ! t = map (boundary_of N (2 ^ t)) [0..<N]"
      using t by (simp_all add: wbs)
    have shape: "length c = N" "\<forall>i<N. t < length (c ! i)"
      using t by (simp_all add: st C_def)
    have dt: "d t = (\<lambda>i. projr (frame_divergence divergence xs D (2 ^ t) i))"
      by (simp add: d_def)
    note ts = calculate_timescale_cases[OF N(2) w wt cm shape st(1,2) dt]
    have upd: "map (\<lambda>j. (c ! j)[t := final_value (d t) N (2 ^ t) j]) [0..<N] = C (Suc t)"
      using t unfolding st C_def
      by (auto simp: list_eq_iff_nth_eq nth_list_update less_Suc_eq)
    show "if ok t then \<exists>s'. ?body t s = Inr s' \<and> I (Suc t) s' else \<exists>err. ?body t s = Inl err"
      using ts unfolding s ok_def upd I_def by (auto split: if_splits)
  qed
  have fin: "C T = expected_output divergence xs T"
    by (simp add: C_def expected_output_def d_def N D)
  have okdef: "(\<forall>t<T. ok t) = divergences_defined divergence xs T"
    by (simp add: ok_def divergences_defined_def N D)
  show ?thesis
    using main unfolding okdef I_def fin by (auto split: if_splits)
qed

lemma calculate_cases:
  fixes xs :: "float list list" and divergence :: DivergencePolicy
  assumes ne: "xs \<noteq> []"
  shows "if frames_wide xs (length (hd xs)) \<and> in_int_range sc xs \<and>
            divergences_defined divergence xs (m_num_dim sc)
         then calculate sc xs divergence = Inr (expected_output divergence xs (m_num_dim sc))
         else \<exists>err. calculate sc xs divergence = Inl err"
proof -
  define N where "N = length xs"
  define D where "D = length (hd xs)"
  define T where "T = m_num_dim sc"
  have N0: "0 < N" "length xs \<noteq> 0" using ne by (simp_all add: N_def)
  have first: "vec_get xs 0 = Inr (xs ! 0)" "length (xs ! 0) = D"
    using ne by (simp_all add: D_def hd_conv_nth)
  let ?loop = "\<lambda>cm wbs chg. for_loop [0..<T] (calculate_timescale divergence cm wbs N D)
                  (chg, replicate D 0, replicate D 0)"
  have unfold: "calculate sc xs divergence =
       ebind (calculate_cumulative sc xs D)
           (\<lambda>(cumulative_vector, cumulative_matrix, change_matrix).
         ebind (init_window_boundaries sc N) (\<lambda>window_boundaries.
         ebind (?loop cumulative_matrix window_boundaries change_matrix)
           (\<lambda>(change_matrix, mean_L, mean_R). Inr change_matrix)))"
    unfolding calculate_def Let_def
    using N0 by (simp only: first ebind_Inr if_False N_def T_def)
  show ?thesis
  proof (cases "m_num_dim sc \<le> max_size")
    case False
    then have big: "max_size < m_num_dim sc" by simp
    have "calculate_cumulative sc xs D = Inl LengthError"
      by (rule calculate_cumulative_too_long[OF big ne]) (simp add: D_def)
    then have "calculate sc xs divergence = Inl LengthError"
      unfolding unfold by simp
    moreover have "\<not> in_int_range sc xs"
      using big by (simp add: in_int_range_def max_size_def)
    ultimately show ?thesis by auto
  next
  case fits: True
  note cum = calculate_cumulative_cases[OF fits, of xs D]
  show ?thesis
  proof (cases "frames_wide xs D")
    case False
    with cum obtain err where "calculate_cumulative sc xs D = Inl err" by auto
    then have "calculate sc xs divergence = Inl err"
      unfolding unfold by simp
    then show ?thesis using False by (auto simp: D_def)
  next
    case wide: True
    define cm where "cm = map (prefix_sums xs D) [0..<Suc N]"
    with cum wide have c1: "calculate_cumulative sc xs D =
        Inr (prefix_sums xs D N, cm, replicate N (replicate T 0))"
      by (simp add: N_def T_def cm_def)
    have step1: "calculate sc xs divergence =
         ebind (init_window_boundaries sc N) (\<lambda>window_boundaries.
         ebind (?loop cm window_boundaries (replicate N (replicate T 0)))
           (\<lambda>(change_matrix, mean_L, mean_R). Inr change_matrix))"
      unfolding unfold c1 by simp
    show ?thesis
    proof (cases "in_int_range sc xs")
      case False
      then have "\<not> (\<exists>wbs. init_window_boundaries sc N = Inr wbs)"
        using init_window_boundaries_Inr_iff[OF N0(1), of sc] by (simp add: in_int_range_def N_def)
      then obtain err where "init_window_boundaries sc N = Inl err"
        by (cases "init_window_boundaries sc N") auto
      then have "calculate sc xs divergence = Inl err"
        unfolding step1 by simp
      then show ?thesis using False by auto
    next
      case range: True
      show ?thesis
      proof (cases "T = 0")
        case True
        have w0: "init_window_boundaries sc N = Inr []"
          using True by (simp add: init_window_boundaries_def T_def)
        have up: "[0..<T] = []" "replicate T (0::float) = []" using True by simp_all
        have "calculate sc xs divergence = Inr (replicate N [])"
          unfolding step1 w0 up by (simp only: ebind_Inr for_loop.simps prod.case)
        moreover have tz: "m_num_dim sc = 0" using True by (simp add: T_def)
        moreover have "expected_output divergence xs (m_num_dim sc) = replicate N []"
          unfolding tz by (simp add: expected_output_def N_def map_replicate_const)
        moreover have "divergences_defined divergence xs (m_num_dim sc)"
          unfolding tz by (simp add: divergences_defined_def)
        ultimately show ?thesis using wide range by (simp add: D_def)
      next
        case False
        with range have r: "T \<le> 30" "N < 2 ^ 31"
          by (simp_all add: in_int_range_def T_def N_def)
        define wbs where "wbs = map (\<lambda>t. map (boundary_of N (2 ^ t)) [0..<N]) [0..<T]"
        have w: "init_window_boundaries sc N = Inr wbs"
          unfolding wbs_def T_def using r by (intro init_window_boundaries_in_range) (simp_all add: T_def)
        have step2: "calculate sc xs divergence =
           ebind (?loop cm wbs (replicate N (replicate T 0)))
             (\<lambda>(change_matrix, mean_L, mean_R). Inr change_matrix)"
          unfolding step1 w by simp
        note loop = timescales_loop[OF N_def r(2) D_def wbs_def cm_def, of divergence]
        show ?thesis
        proof (cases "divergences_defined divergence xs T")
          case True
          with loop obtain mL mR where "?loop cm wbs (replicate N (replicate T 0)) =
                Inr (expected_output divergence xs T, mL, mR)" by auto
          then have "calculate sc xs divergence = Inr (expected_output divergence xs T)"
            unfolding step2 by simp
          then show ?thesis using True wide range by (simp add: D_def T_def)
        next
          case False
          with loop obtain err where "?loop cm wbs (replicate N (replicate T 0)) = Inl err" by auto
          then have "calculate sc xs divergence = Inl err"
            unfolding step2 by simp
          then show ?thesis using False by (auto simp: T_def)
        qed
      qed
    qed
  qed
  qed
qed

lemma calculate_empty: "calculate sc [] divergence = Inr []"
  by (simp add: calculate_def)

lemma calculate_Inr_D:
  assumes "calculate sc xs divergence = Inr out" "xs \<noteq> []"
  shows "frames_wide xs (length (hd xs))" "in_int_range sc xs"
    "divergences_defined divergence xs (m_num_dim sc)"
    "out = expected_output divergence xs (m_num_dim sc)"
  using calculate_cases[OF assms(2), of sc divergence] assms(1)
  by (auto split: if_splits)

lemma policy_defined_divergences:
  "policy_defined divergence (length (hd xs)) \<Longrightarrow> divergences_defined divergence xs T"
  by (simp add: policy_defined_def divergences_defined_def frame_divergence_def)

lemma calculate_Inr_values:
  fixes xs :: "float list list" and divergence :: DivergencePolicy
  assumes run: "calculate sc xs divergence = Inr out" and t: "t < m_num_dim sc" and i: "i < length xs"
  shows "\<exists>wbs vals.
     init_window_boundaries sc (length xs) = Inr wbs \<and>
     wbs ! t ! i ! 4 = frame_status (length xs) (2 ^ t) i \<and>
     filter (\<lambda>j. wbs ! t ! j ! 4 = 0) [0..<length xs] = normal_frames (length xs) (2 ^ t) \<and>
     emap (frame_divergence divergence xs (length (hd xs)) (2 ^ t)) (normal_frames (length xs) (2 ^ t)) = Inr vals \<and>
     (frame_status (length xs) (2 ^ t) i = 0 \<longrightarrow>
        (\<exists>v. frame_divergence divergence xs (length (hd xs)) (2 ^ t) i = Inr v \<and>
             out ! i ! t = replaced (mean_div_of vals) v)) \<and>
     (frame_status (length xs) (2 ^ t) i = - 1 \<longrightarrow> out ! i ! t = (- 1) * mean_div_of vals) \<and>
     (frame_status (length xs) (2 ^ t) i = - 2 \<longrightarrow> out ! i ! t = 3 * mean_div_of vals) \<and>
     (frame_status (length xs) (2 ^ t) i = - 3 \<longrightarrow> out ! i ! t = 0) \<and>
     length out = length xs \<and> length (out ! i) = m_num_dim sc"
proof -
  define N where "N = length xs"
  define D where "D = length (hd xs)"
  define T where "T = m_num_dim sc"
  define w :: nat where "w = 2 ^ t"
  have ne: "xs \<noteq> []" using i by auto
  note facts = calculate_Inr_D[OF run ne]
  have r: "T \<le> 30" "N < 2 ^ 31"
    using facts(2) t by (auto simp: in_int_range_def T_def N_def)
  define wbs where "wbs = map (\<lambda>t. map (boundary_of N (2 ^ t)) [0..<N]) [0..<T]"
  have wb: "init_window_boundaries sc N = Inr wbs"
    unfolding wbs_def T_def using r by (intro init_window_boundaries_in_range) (simp_all add: T_def)
  have st: "wbs ! t ! j ! 4 = frame_status N w j" if "j < N" for j
    using that t by (simp add: wbs_def T_def w_def boundary_of_def frame_status_def)
  have flt: "filter (\<lambda>j. wbs ! t ! j ! 4 = 0) [0..<N] = normal_frames N w"
    unfolding normal_frames_def by (rule filter_cong) (simp_all add: st)
  define d where "d = (\<lambda>j. projr (frame_divergence divergence xs D w j))"
  have def: "frame_divergence divergence xs D w j = Inr (d j)" if "j < N" "frame_status N w j = 0" for j
  proof -
    have "\<exists>v. frame_divergence divergence xs D w j = Inr v"
      using facts(3) that t unfolding divergences_defined_def
      by (simp add: N_def D_def T_def w_def)
    then show ?thesis by (auto simp: d_def)
  qed
  have em: "emap (frame_divergence divergence xs D w) (normal_frames N w) = Inr (map d (normal_frames N w))"
    by (rule emap_Inr) (simp add: normal_frames_def def)
  have out: "out ! i ! t = final_value d N w i"
    using facts(4) i t by (simp add: expected_output_def d_def N_def D_def w_def)
  define md where "md = mean_div_of (map d (normal_frames N w))"
  have vals: "(frame_status N w i = 0 \<longrightarrow> out ! i ! t = replaced md (d i)) \<and>
      (frame_status N w i = - 1 \<longrightarrow> out ! i ! t = (- 1) * md) \<and>
      (frame_status N w i = - 2 \<longrightarrow> out ! i ! t = 3 * md) \<and>
      (frame_status N w i = - 3 \<longrightarrow> out ! i ! t = 0)"
    unfolding out final_value_def md_def by (simp add: Let_def)
  have shape: "length out = N" "length (out ! i) = T"
    using facts(4) i by (simp_all add: expected_output_def N_def T_def)
  show ?thesis
    unfolding N_def[symmetric] D_def[symmetric] T_def[symmetric] w_def[symmetric]
    using wb st[of i] i flt em vals def[of i] shape unfolding md_def N_def[symmetric]
    by (intro exI[of _ wbs] exI[of _ "map d (normal_frames N w)"]) auto
qed

lemma Euclidean_1D: "EuclideanDivergencePolicy [x] [y] = Inr \<bar>x - y\<bar>"
  using Euclidean_closed[of "[x]" "[y]"] by simp

lemma Euclidean_defined: "policy_defined EuclideanDivergencePolicy D"
  by (simp add: policy_defined_def Euclidean_closed)

lemmas evaluation =
  expected_output_def final_value_def mean_div_of_def normal_frames_def frame_status_def
  status_of_def frame_divergence_def window_mean_def replaced_def LEFT_def RIGHT_def
  sum.atLeast_Suc_lessThan upt_rec Let_def

lemma calculate_total:
  assumes "frames_wide xs (length (hd xs))" "in_int_range sc xs"
    "divergences_defined divergence xs (m_num_dim sc)"
  shows "calculate sc xs divergence = Inr (expected_output divergence xs (m_num_dim sc))"
proof (cases "xs = []")
  case True
  then show ?thesis by (simp add: calculate_empty expected_output_def)
next
  case False
  from calculate_cases[OF this, of sc divergence] assms show ?thesis by simp
qed

lemma calculate_shape:
  assumes "calculate sc xs divergence = Inr out"
  shows "length out = length xs" "\<forall>f\<in>set out. length f = m_num_dim sc"
proof -
  have "out = expected_output divergence xs (m_num_dim sc)"
  proof (cases "xs = []")
    case True
    then show ?thesis using assms by (simp add: calculate_empty expected_output_def)
  next
    case False
    then show ?thesis using calculate_Inr_D(4)[OF assms] by simp
  qed
  then show "length out = length xs" "\<forall>f\<in>set out. length f = m_num_dim sc"
    by (auto simp: expected_output_def)
qed

lemma calculate_window_failure:
  fixes xs :: "float list list"
  assumes ne: "xs \<noteq> []" and wide: "frames_wide xs (length (hd xs))"
    and fits: "m_num_dim sc \<le> max_size"
    and fail: "init_window_boundaries sc (length xs) = Inl err"
  shows "calculate sc xs divergence = Inl err"
proof -
  have first: "vec_get xs 0 = Inr (xs ! 0)" "length (xs ! 0) = length (hd xs)" "length xs \<noteq> 0"
    using ne by (simp_all add: hd_conv_nth)
  from calculate_cumulative_cases[OF fits, of xs "length (hd xs)"] wide
  have cum: "calculate_cumulative sc xs (length (hd xs)) =
      Inr (prefix_sums xs (length (hd xs)) (length xs),
           map (prefix_sums xs (length (hd xs))) [0..<Suc (length xs)],
           replicate (length xs) (replicate (m_num_dim sc) 0))"
    by simp
  show ?thesis
    unfolding calculate_def Let_def
    by (simp only: first if_False ebind_Inr cum prod.case fail ebind_Inl)
qed

lemma calculate_cumulative_failure:
  fixes xs :: "float list list"
  assumes ne: "xs \<noteq> []" and fail: "calculate_cumulative sc xs (length (hd xs)) = Inl err"
  shows "calculate sc xs divergence = Inl err"
proof -
  have first: "vec_get xs 0 = Inr (xs ! 0)" "length (xs ! 0) = length (hd xs)" "length xs \<noteq> 0"
    using ne by (simp_all add: hd_conv_nth)
  show ?thesis
    unfolding calculate_def Let_def
    by (simp only: first if_False ebind_Inr fail ebind_Inl)
qed

lemma calculate_above_30:
  fixes xs :: "float list list"
  assumes T: "30 < m_num_dim sc" and ne: "xs \<noteq> []"
  shows "calculate sc xs divergence =
     Inl (if max_size < m_num_dim sc then LengthError
          else if frames_wide xs (length (hd xs)) then SignedOverflow else OutOfRange)"
proof (cases "max_size < m_num_dim sc")
  case True
  have "calculate_cumulative sc xs (length (hd xs)) = Inl LengthError"
    using True ne by (rule calculate_cumulative_too_long) simp
  from calculate_cumulative_failure[OF ne this] True show ?thesis by simp
next
  case False
  then have fits: "m_num_dim sc \<le> max_size" by simp
  show ?thesis
  proof (cases "frames_wide xs (length (hd xs))")
    case True
    have "init_window_boundaries sc (length xs) = Inl SignedOverflow"
      using ne T by (intro init_window_boundaries_overflow) simp_all
    from calculate_window_failure[OF ne True fits this] True False show ?thesis by simp
  next
    case narrow: False
    with calculate_cumulative_cases[OF fits, of xs "length (hd xs)"]
    have "calculate_cumulative sc xs (length (hd xs)) = Inl OutOfRange" by simp
    from calculate_cumulative_failure[OF ne this] narrow False show ?thesis by simp
  qed
qed

subsection \<open>The claims about the calculation\<close>

lemma boundaries_1_4:
  "init_window_boundaries (StructuralChange 1) 4 =
     Inr [[[0, 0, 0, 1, - 1], [0, 1, 1, 2, 0], [1, 2, 2, 3, 0], [2, 3, 3, 4, 0]]]"
  using init_window_boundaries_in_range[of "StructuralChange 1" 4]
  by (simp add: StructuralChange_def boundary_of_def status_of_def upt_rec)

lemma scenario_calculate:
  "calculate (StructuralChange 1) [[1], [1], [5], [5]] EuclideanDivergencePolicy =
     Inr [[- (4 / 3)], [0], [4], [0]]"
proof -
  have "calculate (StructuralChange 1) [[1], [1], [5], [5]] EuclideanDivergencePolicy =
     Inr (expected_output EuclideanDivergencePolicy [[1], [1], [5], [5]] (m_num_dim (StructuralChange 1)))"
    by (rule calculate_total)
      (simp_all add: frames_wide_def in_int_range_def StructuralChange_def
        policy_defined_divergences Euclidean_defined)
  moreover have "expected_output EuclideanDivergencePolicy [[1], [1], [5], [5]] 1 =
      [[- (4 / 3)], [0], [4], [0]]"
    by (simp add: evaluation Euclidean_1D)
  moreover have "m_num_dim (StructuralChange 1) = 1" by (simp add: StructuralChange_def)
  ultimately show ?thesis by simp
qed

text \<open>
  Claim C1, as the program computes it. For the four one-dimensional frames
  \<open>[1, 1, 5, 5]\<close>, one timescale (half-width 1) and the Euclidean policy: frame 0 has
  status \<open>-1\<close> (left-truncated: only its right window is full), frames 1, 2 and 3 are
  normal, with divergences 0, 4 and 0 (the right window of the last frame is that frame
  itself), no frame is right-truncated, the mean divergence is \<open>4 / 3\<close>, and the output
  is \<open>[-4/3, 0, 4, 0]\<close>.
\<close>

theorem scenario_1_1_5_5:
  "init_window_boundaries (StructuralChange 1) 4 =
     Inr [[[0, 0, 0, 1, - 1], [0, 1, 1, 2, 0], [1, 2, 2, 3, 0], [2, 3, 3, 4, 0]]] \<and>
   emap (frame_divergence EuclideanDivergencePolicy [[1], [1], [5], [5]] 1 1) [1, 2, 3] = Inr [0, 4, 0] \<and>
   mean_div_of [0, 4, 0] = 4 / 3 \<and>
   calculate (StructuralChange 1) [[1], [1], [5], [5]] EuclideanDivergencePolicy =
     Inr [[- (4 / 3)], [0], [4], [0]]"
  using boundaries_1_4 scenario_calculate
  by (simp add: frame_divergence_def window_mean_def sum.atLeast_Suc_lessThan Euclidean_1D
      mean_div_of_def)

text \<open>
  Claim C1 as stated fails: the output is not \<open>[12, 4, 4, -4]\<close>.
\<close>

theorem scenario_1_1_5_5_counterexample:
  "calculate (StructuralChange 1) [[1], [1], [5], [5]] EuclideanDivergencePolicy \<noteq>
     Inr [[12], [4], [4], [- 4]]"
  using scenario_calculate by simp





text \<open>
  Claim C4, within the range of the 32-bit integers. On the empty sequence the output
  is empty, for every timescale count and policy. On a sequence of fewer than \<open>2 ^ 31\<close>
  frames, each at least as wide as the first, with at most 30 timescales and a policy
  that returns a value on vectors of the input's dimension, \<^verbatim>\<open>calculate\<close> produces an
  output. Every output it produces has as many frames as the input, each of as many
  elements as there are timescales.
\<close>

theorem calculate_output_dimensions:
  fixes xs :: "float list list" and divergence :: DivergencePolicy
  shows "calculate sc [] divergence = Inr [] \<and>
     (frames_wide xs (length (hd xs)) \<and> m_num_dim sc \<le> 30 \<and> length xs < 2 ^ 31 \<and>
      policy_defined divergence (length (hd xs)) \<longrightarrow> (\<exists>out. calculate sc xs divergence = Inr out)) \<and>
     (\<forall>out. calculate sc xs divergence = Inr out \<longrightarrow>
        length out = length xs \<and> (\<forall>f\<in>set out. length f = m_num_dim sc))"
proof (intro conjI impI allI)
  show "calculate sc [] divergence = Inr []" by (rule calculate_empty)
next
  assume h: "frames_wide xs (length (hd xs)) \<and> m_num_dim sc \<le> 30 \<and> length xs < 2 ^ 31 \<and>
      policy_defined divergence (length (hd xs))"
  then have "calculate sc xs divergence = Inr (expected_output divergence xs (m_num_dim sc))"
    by (intro calculate_total policy_defined_divergences) (simp_all add: in_int_range_def)
  then show "\<exists>out. calculate sc xs divergence = Inr out" ..
next
  fix out assume "calculate sc xs divergence = Inr out"
  then show "length out = length xs" "\<forall>f\<in>set out. length f = m_num_dim sc"
    by (rule calculate_shape)+
qed

text \<open>
  The scenario of four frames: an output of four frames of one element.
\<close>

theorem calculate_output_dimensions_witness:
  "frames_wide [[1], [1], [5], [5]] 1 \<and> m_num_dim (StructuralChange 1) \<le> 30 \<and>
   length [[1], [1], [5], [5 :: float]] < 2 ^ 31 \<and> policy_defined EuclideanDivergencePolicy 1 \<and>
   (\<exists>out. calculate (StructuralChange 1) [[1], [1], [5], [5]] EuclideanDivergencePolicy = Inr out \<and>
      length out = 4 \<and> (\<forall>f\<in>set out. length f = 1))"
proof -
  have h: "frames_wide [[1], [1], [5], [5]] 1" "m_num_dim (StructuralChange 1) \<le> 30"
    "length [[1], [1], [5], [5 :: float]] < 2 ^ 31" "policy_defined EuclideanDivergencePolicy 1"
    by (simp_all add: frames_wide_def StructuralChange_def Euclidean_defined)
  from calculate_output_dimensions[of "StructuralChange 1" EuclideanDivergencePolicy "[[1], [1], [5], [5]]"] h
  show ?thesis by (auto simp: StructuralChange_def)
qed

lemma calculate_too_many_frames:
  "isl (calculate (StructuralChange 1) (replicate (2 ^ 31) [1]) EuclideanDivergencePolicy)"
proof -
  let ?xs = "replicate (2 ^ 31) [1 :: float]"
  have len: "length ?xs = 2 ^ 31" by (simp only: length_replicate)
  have ne: "?xs \<noteq> []"
  proof
    assume "?xs = []"
    then have "length ?xs = 0" by (simp only: list.size)
    with len show False by simp
  qed
  have "\<not> in_int_range (StructuralChange 1) ?xs"
    unfolding in_int_range_def len by (simp add: StructuralChange_def)
  with calculate_cases[OF ne, of "StructuralChange 1" EuclideanDivergencePolicy]
  obtain err where "calculate (StructuralChange 1) ?xs EuclideanDivergencePolicy = Inl err"
    by (auto simp only: if_False simp_thms)
  then show ?thesis by (simp only: sum.disc)
qed

text \<open>
  Claim C4 as stated, for every timescale count and every sequence, fails: with 31
  timescales and one frame no output is produced, since at timescale 30 twice the window
  width overflows the \<^verbatim>\<open>int\<close> while the window boundaries are computed; and with one
  timescale and \<open>2 ^ 31\<close> frames none is produced either.
\<close>

theorem calculate_output_dimensions_counterexample:
  "calculate (StructuralChange 31) [[1]] EuclideanDivergencePolicy = Inl SignedOverflow \<and>
   isl (calculate (StructuralChange 1) (replicate (2 ^ 31) [1]) EuclideanDivergencePolicy)"
proof
  show "calculate (StructuralChange 31) [[1]] EuclideanDivergencePolicy = Inl SignedOverflow"
  proof (rule calculate_window_failure)
    show "[[1::float]] \<noteq> []" by simp
    show "frames_wide [[1]] (length (hd [[1::float]]))" by (simp add: frames_wide_def)
    show "m_num_dim (StructuralChange 31) \<le> max_size"
      by (simp add: StructuralChange_def max_size_def)
    show "init_window_boundaries (StructuralChange 31) (length [[1::float]]) = Inl SignedOverflow"
      using init_window_boundaries_31 by simp
  qed
  show "isl (calculate (StructuralChange 1) (replicate (2 ^ 31) [1]) EuclideanDivergencePolicy)"
    by (rule calculate_too_many_frames)
qed

text \<open>
  Claim C5, as the program computes it. On an input whose frames have at least \<open>D\<close>
  elements, the first loop of \<^verbatim>\<open>calculate\<close> builds a cumulative matrix of \<open>N + 1\<close> rows; row
  0 is all zeros, and each row is the one before plus a frame, added as floats: the
  rounded running sum. When no addition rounds (\<open>exact_sums\<close>), row \<open>k\<close> is the elementwise
  sum of the frames before \<open>k\<close>, and for \<open>j \<le> k\<close> row \<open>k\<close> minus row \<open>j\<close> is the elementwise sum
  of the frames \<open>j \<le> f < k\<close>.
\<close>

theorem cumulative_matrix_rows:
  fixes xs :: "binary32 list list"
  assumes "list_all (\<lambda>f. D \<le> length f) xs" and "m_num_dim sc \<le> max_size"
  shows "\<exists>cumulative_vector cumulative_matrix change_matrix.
     calculate_cumulative_binary32 sc xs D = Inr (cumulative_vector, cumulative_matrix, change_matrix) \<and>
     length cumulative_matrix = length xs + 1 \<and>
     cumulative_matrix ! 0 = replicate D (Finite 0) \<and>
     (\<forall>k<length xs. cumulative_matrix ! Suc k =
        map (\<lambda>e. add32 (cumulative_matrix ! k ! e) (xs ! k ! e)) [0..<D]) \<and>
     (exact_sums xs D \<longrightarrow>
        (\<forall>k\<le>length xs. cumulative_matrix ! k =
           map (\<lambda>e. Finite (\<Sum>f<k. value_of (xs ! f ! e))) [0..<D]) \<and>
        (\<forall>j k. j \<le> k \<and> k \<le> length xs \<longrightarrow>
           (\<forall>e<D. value_of (cumulative_matrix ! k ! e) - value_of (cumulative_matrix ! j ! e) =
              (\<Sum>f = j..<k. value_of (xs ! f ! e)))))"
proof -
  define cm where "cm = map (running_sums xs D) [0..<Suc (length xs)]"
  have run: "calculate_cumulative_binary32 sc xs D =
       Inr (running_sums xs D (length xs), cm, replicate (length xs) (replicate (m_num_dim sc) 0))"
    using calculate_cumulative_binary32_run[OF assms] by (simp add: cm_def)
  have row: "cm ! k = running_sums xs D k" if "k \<le> length xs" for k
    using that unfolding cm_def by (simp del: upt_Suc)
  have len: "length cm = length xs + 1" by (simp add: cm_def)
  have zero: "cm ! 0 = replicate D (Finite 0)"
    by (simp add: row running_sums_def zero_ieee_def list_eq_iff_nth_eq)
  have step: "cm ! Suc k = map (\<lambda>e. add32 (cm ! k ! e) (xs ! k ! e)) [0..<D]" if "k < length xs" for k
    using that by (simp add: row running_sums_Suc)
  have exact: "cm ! k = map (\<lambda>e. Finite (\<Sum>f<k. value_of (xs ! f ! e))) [0..<D]"
    if "exact_sums xs D" "k \<le> length xs" for k
    using that by (simp add: row list_eq_iff_nth_eq running_sums_exact)
  have diff: "value_of (cm ! k ! e) - value_of (cm ! j ! e) = (\<Sum>f = j..<k. value_of (xs ! f ! e))"
    if "exact_sums xs D" "j \<le> k" "k \<le> length xs" "e < D" for j k e
    using that by (simp add: exact sum_prefix_diff)
  show ?thesis
    using run len zero step exact diff
    by (intro exI[of _ "running_sums xs D (length xs)"] exI[of _ cm]
        exI[of _ "replicate (length xs) (replicate (m_num_dim sc) 0)"]) simp
qed

text \<open>
  Three frames of two elements: the last row is \<open>[7, 9]\<close>, and in dimension 1 row 3
  minus row 1 is \<open>3 + 4\<close>.
\<close>

theorem cumulative_matrix_rows_witness:
  "list_all (\<lambda>f. 2 \<le> length f) [[Finite 1, Finite 2], [Finite 1, Finite 3], [Finite 5, Finite 4]] \<and>
   m_num_dim (StructuralChange 2) \<le> max_size \<and>
   exact_sums [[Finite 1, Finite 2], [Finite 1, Finite 3], [Finite 5, Finite 4]] 2 \<and>
   (\<exists>cumulative_vector cumulative_matrix change_matrix.
     calculate_cumulative_binary32 (StructuralChange 2)
         [[Finite 1, Finite 2], [Finite 1, Finite 3], [Finite 5, Finite 4]] 2 =
       Inr (cumulative_vector, cumulative_matrix, change_matrix) \<and>
     length cumulative_matrix = 4 \<and> cumulative_matrix ! 0 = [Finite 0, Finite 0] \<and>
     cumulative_matrix ! 3 = [Finite 7, Finite 9] \<and>
     value_of (cumulative_matrix ! 3 ! 1) - value_of (cumulative_matrix ! 1 ! 1) = 7)"
proof -
  let ?xs = "[[Finite 1, Finite 2], [Finite 1, Finite 3], [Finite 5, Finite 4]]"
  have h: "list_all (\<lambda>f. 2 \<le> length f) ?xs" "m_num_dim (StructuralChange 2) \<le> max_size"
    by (simp_all add: StructuralChange_def max_size_def)
  have ex: "exact_sums ?xs 2"
    unfolding exact_sums_def
    by (auto simp: le_Suc_eq less_Suc_eq lessThan_Suc less_2_cases_iff)
  from cumulative_matrix_rows[OF h] obtain cv cm chg where
    run: "calculate_cumulative_binary32 (StructuralChange 2) ?xs 2 = Inr (cv, cm, chg)"
    and len: "length cm = length ?xs + 1"
    and zero: "cm ! 0 = replicate 2 (Finite 0)"
    and rest: "exact_sums ?xs 2 \<longrightarrow>
        (\<forall>k\<le>length ?xs. cm ! k = map (\<lambda>e. Finite (\<Sum>f<k. value_of (?xs ! f ! e))) [0..<2]) \<and>
        (\<forall>j k. j \<le> k \<and> k \<le> length ?xs \<longrightarrow>
           (\<forall>e<2. value_of (cm ! k ! e) - value_of (cm ! j ! e) =
              (\<Sum>f = j..<k. value_of (?xs ! f ! e))))"
    by blast
  from rest ex have rows: "\<forall>k\<le>length ?xs. cm ! k = map (\<lambda>e. Finite (\<Sum>f<k. value_of (?xs ! f ! e))) [0..<2]"
    and diff: "\<forall>j k. j \<le> k \<and> k \<le> length ?xs \<longrightarrow>
           (\<forall>e<2. value_of (cm ! k ! e) - value_of (cm ! j ! e) =
              (\<Sum>f = j..<k. value_of (?xs ! f ! e)))"
    by blast+
  have "cm ! 3 = [Finite 7, Finite 9]"
    using rows[rule_format, of 3] by (simp add: lessThan_Suc numeral_3_eq_3 upt_rec)
  moreover have "value_of (cm ! 3 ! 1) - value_of (cm ! 1 ! 1) = 7"
    using diff[rule_format, of 1 3 1] by (simp add: sum.atLeast_Suc_lessThan)
  moreover have "length cm = 4" "cm ! 0 = [Finite 0, Finite 0]"
    using len zero by (simp_all add: numeral_2_eq_2)
  ultimately show ?thesis using h ex run by blast
qed

lemma round32_16777217: "round32 16777217 = Finite 16777216"
  using round32_binade[of 24 16777217] by (simp add: round_even_def)

text \<open>
  Claim C5 as stated, for every input, fails: after the frame \<open>2 ^ 24\<close> the frames 1 and 1
  are each rounded away, so that rows 1, 2 and 3 are all \<open>2 ^ 24\<close>: row 3 is not the sum
  \<open>2 ^ 24 + 2\<close> of the three frames, and row 3 minus row 1 is 0 and not the sum 2 of the
  frames 1 and 2.
\<close>

theorem cumulative_matrix_rows_counterexample:
  "calculate_cumulative_binary32 (StructuralChange 1) [[Finite 16777216], [Finite 1], [Finite 1]] 1 =
     Inr ([Finite 16777216],
          [[Finite 0], [Finite 16777216], [Finite 16777216], [Finite 16777216]],
          [[Finite 0], [Finite 0], [Finite 0]]) \<and>
   value_of ([[Finite 0], [Finite 16777216], [Finite 16777216], [Finite 16777216]] ! 3 ! 0) -
   value_of ([[Finite 0], [Finite 16777216], [Finite 16777216], [Finite 16777216]] ! 1 ! 0) \<noteq>
     (\<Sum>f = 1..<3. value_of ([[Finite 16777216], [Finite 1], [Finite 1]] ! f ! 0))"
  by (simp add: calculate_cumulative_binary32_def upt_rec resize_def max_size_def StructuralChange_def
      zero_ieee_def vec_get_def vec_set_def round32_16777217 sum.atLeast_Suc_lessThan)

text \<open>
  Claim C9, as the program behaves. The constructor stores every timescale count it is
  given and rejects none. With any count \<^verbatim>\<open>calculate\<close> returns the empty output on the
  empty input. With a count above 30 it fails on every input that is not empty, and only
  during the calculation: with the length error of \<^verbatim>\<open>resize\<close> when the count is above the
  largest size of a vector, with a read past the end of a frame when a frame is shorter
  than the first, and otherwise with the signed overflow of the window boundaries.
\<close>

theorem constructor_accepts_every_count:
  fixes xs :: "float list list" and divergence :: DivergencePolicy
  shows "m_num_dim (StructuralChange n) = n \<and>
     calculate (StructuralChange n) [] divergence = Inr [] \<and>
     (30 < n \<and> xs \<noteq> [] \<longrightarrow>
        calculate (StructuralChange n) xs divergence =
          Inl (if max_size < n then LengthError
               else if frames_wide xs (length (hd xs)) then SignedOverflow else OutOfRange))"
proof (intro conjI impI)
  show n: "m_num_dim (StructuralChange n) = n" by (simp add: StructuralChange_def)
  show "calculate (StructuralChange n) [] divergence = Inr []" by (rule calculate_empty)
  assume h: "30 < n \<and> xs \<noteq> []"
  then have "30 < m_num_dim (StructuralChange n)" "xs \<noteq> []" by (simp_all add: n)
  from calculate_above_30[OF this, of divergence]
  show "calculate (StructuralChange n) xs divergence =
          Inl (if max_size < n then LengthError
               else if frames_wide xs (length (hd xs)) then SignedOverflow else OutOfRange)"
    by (simp only: n)
qed

text \<open>
  With 31 timescales: constructed, and failing on a single frame with the signed overflow.
\<close>

theorem constructor_accepts_every_count_witness:
  "m_num_dim (StructuralChange 31) = 31 \<and>
   calculate (StructuralChange 31) [] EuclideanDivergencePolicy = Inr [] \<and>
   (30::nat) < 31 \<and> [[1 :: float]] \<noteq> [] \<and>
   calculate (StructuralChange 31) [[1]] EuclideanDivergencePolicy = Inl SignedOverflow"
  using constructor_accepts_every_count[of 31 EuclideanDivergencePolicy "[[1]]"]
  by (simp add: max_size_def frames_wide_def)

text \<open>
  Claim C9 as stated fails: the count \<open>-1\<close>, which the \<^verbatim>\<open>size_t\<close> parameter receives as
  \<open>2 ^ 64 - 1\<close>, is not rejected at construction. The engine is built and used: it returns
  the empty output on the empty input, and on one frame it fails in the first loop of the
  calculation, where \<^verbatim>\<open>resize\<close> throws the length error.
\<close>

theorem constructor_rejects_nothing_counterexample:
  "m_num_dim (StructuralChange (size_t_of_int (- 1))) = 18446744073709551615 \<and>
   calculate (StructuralChange (size_t_of_int (- 1))) [] EuclideanDivergencePolicy = Inr [] \<and>
   calculate (StructuralChange (size_t_of_int (- 1))) [[1]] EuclideanDivergencePolicy = Inl LengthError"
proof -
  have n: "size_t_of_int (- 1) = 18446744073709551615" by (simp add: size_t_of_int_def)
  have "30 < m_num_dim (StructuralChange 18446744073709551615)" "[[1 :: float]] \<noteq> []"
    by (simp_all add: StructuralChange_def)
  from calculate_above_30[OF this, of EuclideanDivergencePolicy]
  have "calculate (StructuralChange 18446744073709551615) [[1]] EuclideanDivergencePolicy = Inl LengthError"
    by (simp add: StructuralChange_def max_size_def)
  then show ?thesis
    unfolding n by (simp add: StructuralChange_def calculate_empty)
qed

text \<open>
  Claim C10. Whenever \<^verbatim>\<open>calculate\<close> finishes with the output \<open>out\<close>, for every timescale
  \<open>t\<close> and every frame \<open>i\<close> of normal status: with \<open>v\<close> the value the policy computed at the
  frame and \<open>meanDiv\<close> the mean over the normal frames, \<open>out[i][t]\<close> is \<open>3 * meanDiv\<close> if
  \<open>v\<close> is \<open>RIGHT = -2\<close>, \<open>-1 * meanDiv\<close> if \<open>v\<close> is \<open>LEFT = -1\<close>, and \<open>v\<close> otherwise: the
  computed value is kept when it is neither placeholder, and overwritten when it is one.
\<close>

theorem sentinel_collision:
  fixes xs :: "float list list" and divergence :: DivergencePolicy
  assumes "calculate sc xs divergence = Inr out" and "t < m_num_dim sc" and "i < length xs"
  shows "\<exists>wbs vals.
     init_window_boundaries sc (length xs) = Inr wbs \<and>
     emap (frame_divergence divergence xs (length (hd xs)) (2 ^ t))
       (filter (\<lambda>j. wbs ! t ! j ! 4 = 0) [0..<length xs]) = Inr vals \<and>
     (wbs ! t ! i ! 4 = 0 \<longrightarrow>
        (\<exists>v. frame_divergence divergence xs (length (hd xs)) (2 ^ t) i = Inr v \<and>
           out ! i ! t = (if v = RIGHT then 3 * mean_div_of vals
                          else if v = LEFT then (- 1) * mean_div_of vals else v) \<and>
           (v \<noteq> LEFT \<and> v \<noteq> RIGHT \<longrightarrow> out ! i ! t = v))) \<and>
     LEFT = - 1 \<and> RIGHT = - 2"
proof -
  from calculate_Inr_values[OF assms] obtain wbs vals where
    "init_window_boundaries sc (length xs) = Inr wbs"
    "wbs ! t ! i ! 4 = frame_status (length xs) (2 ^ t) i"
    "filter (\<lambda>j. wbs ! t ! j ! 4 = 0) [0..<length xs] = normal_frames (length xs) (2 ^ t)"
    "emap (frame_divergence divergence xs (length (hd xs)) (2 ^ t)) (normal_frames (length xs) (2 ^ t)) = Inr vals"
    "frame_status (length xs) (2 ^ t) i = 0 \<longrightarrow>
        (\<exists>v. frame_divergence divergence xs (length (hd xs)) (2 ^ t) i = Inr v \<and>
             out ! i ! t = replaced (mean_div_of vals) v)"
    by blast
  then show ?thesis
    by (intro exI[of _ wbs] exI[of _ vals]) (auto simp: replaced_def LEFT_def RIGHT_def)
qed

lemma constant_policy_calculate:
  "calculate (StructuralChange 1) [[1], [1], [5], [5]] (\<lambda>a b. Inr (- 1)) = Inr [[1], [1], [1], [1]]"
proof -
  let ?dv = "(\<lambda>a b. Inr (- 1)) :: DivergencePolicy"
  have "calculate (StructuralChange 1) [[1], [1], [5], [5]] ?dv =
     Inr (expected_output ?dv [[1], [1], [5], [5]] (m_num_dim (StructuralChange 1)))"
    by (rule calculate_total)
      (simp_all add: frames_wide_def in_int_range_def StructuralChange_def
        policy_defined_divergences policy_defined_def)
  moreover have "expected_output ?dv [[1], [1], [5], [5]] 1 = [[1], [1], [1], [1]]"
    by (simp add: evaluation)
  moreover have "m_num_dim (StructuralChange 1) = 1" by (simp add: StructuralChange_def)
  ultimately show ?thesis by simp
qed

text \<open>
  A policy that always returns \<open>-1\<close>: frame 1 is normal, its computed value \<open>-1\<close> is
  taken for the placeholder \<open>LEFT\<close> and replaced by \<open>-1 * meanDiv = 1\<close>.
\<close>

theorem sentinel_collision_witness:
  "calculate (StructuralChange 1) [[1], [1], [5], [5]] (\<lambda>a b. Inr (- 1)) = Inr [[1], [1], [1], [1]] \<and>
   (0::nat) < m_num_dim (StructuralChange 1) \<and> (1::nat) < length [[1], [1], [5], [5 :: float]] \<and>
   (\<exists>wbs vals. init_window_boundaries (StructuralChange 1) 4 = Inr wbs \<and>
      wbs ! 0 ! 1 ! 4 = 0 \<and> vals = [- 1, - 1, - 1] \<and>
      frame_divergence (\<lambda>a b. Inr (- 1)) [[1], [1], [5], [5]] 1 1 1 = Inr LEFT \<and>
      [[1], [1], [1], [1 :: float]] ! 1 ! 0 = (- 1) * mean_div_of vals \<and>
      [[1], [1], [1], [1 :: float]] ! 1 ! 0 \<noteq> LEFT)"
proof -
  let ?xs = "[[1], [1], [5], [5 :: float]]"
  let ?dv = "(\<lambda>a b. Inr (- 1)) :: DivergencePolicy"
  let ?out = "[[1], [1], [1], [1 :: float]]"
  have t: "0 < m_num_dim (StructuralChange 1)" and i: "1 < length ?xs"
    by (simp_all add: StructuralChange_def)
  from sentinel_collision[OF constant_policy_calculate t i] obtain wbs vals where
    w: "init_window_boundaries (StructuralChange 1) (length ?xs) = Inr wbs"
    and e: "emap (frame_divergence ?dv ?xs (length (hd ?xs)) (2 ^ 0))
       (filter (\<lambda>j. wbs ! 0 ! j ! 4 = 0) [0..<length ?xs]) = Inr vals"
    and r: "wbs ! 0 ! 1 ! 4 = 0 \<longrightarrow>
        (\<exists>v. frame_divergence ?dv ?xs (length (hd ?xs)) (2 ^ 0) 1 = Inr v \<and>
           ?out ! 1 ! 0 = (if v = RIGHT then 3 * mean_div_of vals
                          else if v = LEFT then (- 1) * mean_div_of vals else v) \<and>
           (v \<noteq> LEFT \<and> v \<noteq> RIGHT \<longrightarrow> ?out ! 1 ! 0 = v))"
    by blast
  have len: "length ?xs = 4" "length (hd ?xs) = 1" "(2::nat) ^ 0 = 1" by simp_all
  note w' = w[unfolded len] and e' = e[unfolded len] and r' = r[unfolded len]
  have wbs: "wbs = [[[0, 0, 0, 1, - 1], [0, 1, 1, 2, 0], [1, 2, 2, 3, 0], [2, 3, 3, 4, 0]]]"
    using w' unfolding boundaries_1_4 by simp
  have st: "wbs ! 0 ! 1 ! 4 = 0" by (simp add: wbs)
  have fl: "filter (\<lambda>j. wbs ! 0 ! j ! 4 = 0) [0..<4] = [1, 2, 3]"
    by (simp add: wbs upt_rec)
  have vals: "vals = [- 1, - 1, - 1]"
    using e' unfolding fl by (simp add: frame_divergence_def)
  have fd: "frame_divergence ?dv ?xs 1 1 1 = Inr LEFT"
    by (simp add: frame_divergence_def LEFT_def)
  have eq: "?out ! 1 ! 0 = (- 1) * mean_div_of vals"
    using r' st fd by (auto simp: LEFT_def RIGHT_def)
  have ne: "?out ! 1 ! 0 \<noteq> LEFT" by (simp add: LEFT_def)
  show ?thesis
    using constant_policy_calculate t i w' st vals fd eq ne
    by (intro conjI exI[of _ wbs] exI[of _ vals]) simp_all
qed

end
